theory Spec2Isabelle
  imports Complex_Main "HOL-Library.AList"
begin

section \<open>Data model of the workload runner (workload\_runner.py)\<close>

text \<open>
  Planner costs are Python floats; they are idealised here as \<^typ>\<open>real\<close>, so every
  arithmetic statement below is about the exact value of the expression the code
  evaluates. Counts and byte sizes are Python integers (\<^typ>\<open>nat\<close> where the code only
  counts up from zero, \<^typ>\<open>int\<close> otherwise). Timestamps are the ISO strings returned by
  \<^verbatim>\<open>datetime.now().isoformat()\<close>. Python dictionaries keep insertion order, and the
  decision engine depends on that order, so \<^verbatim>\<open>stats['queries']\<close> is an association
  list updated with \<^const>\<open>AList.update\<close> (replace in place, or append a new key).

  Record fields carry a prefix, since field names are global constants:
  \<open>ix_\<close> for the dictionaries describing one index, \<open>q_\<close> for one entry of
  \<^verbatim>\<open>stats['queries']\<close>, \<open>ws_\<close> for \<^verbatim>\<open>self.stats\<close>.
\<close>

type_synonym timestamp = string

record used_index =
  ix_index_name :: string
  ix_columns :: "string list"
  ix_table :: string
  ix_size_bytes :: int

record index_info =
  all_created :: "used_index list"
  used_by_query :: "used_index list"

record query_stats =
  q_full_query :: string
  q_tables :: "string list"
  q_hot_columns :: "string list"
  q_executions :: nat
  q_total_baseline_cost :: real
  q_total_optimized_cost :: real
  q_avg_improvement_pct :: real
  q_min_improvement_pct :: real
  q_max_improvement_pct :: real
  q_total_index_size_bytes :: int
  q_used_indexes :: "used_index list"

record workload_stats =
  ws_workload_id :: int
  ws_run_time :: timestamp
  ws_queries :: "(string \<times> query_stats) list"
  ws_phases_completed :: nat
  ws_hot_columns :: "string list"
  ws_last_save :: timestamp

text \<open>\<^verbatim>\<open>WorkloadRunner.__init__\<close>: the fresh \<^verbatim>\<open>self.stats\<close>. The constructor reads the
  clock twice, once for \<^verbatim>\<open>run_time\<close> and once for \<^verbatim>\<open>last_save\<close>.\<close>

definition init_stats :: "int \<Rightarrow> timestamp \<Rightarrow> timestamp \<Rightarrow> workload_stats" where
  "init_stats workload_id now_run now_save =
     \<lparr>ws_workload_id = workload_id, ws_run_time = now_run, ws_queries = [],
      ws_phases_completed = 0, ws_hot_columns = [], ws_last_save = now_save\<rparr>"

section \<open>The aggregation step of \<^verbatim>\<open>run_phase\<close>\<close>

text \<open>Lines 420-424: the improvement of one sample.\<close>

definition improvement_pct :: "real \<Rightarrow> real \<Rightarrow> real" where
  "improvement_pct baseline_cost optimized_cost =
     (if baseline_cost > 0 then ((baseline_cost - optimized_cost) / baseline_cost) * 100
      else 0)"

text \<open>Lines 432-445: the entry stored on first sight of a query key.\<close>

definition new_entry :: "string \<Rightarrow> string list \<Rightarrow> string list \<Rightarrow> query_stats" where
  "new_entry query tables columns =
     \<lparr>q_full_query = query, q_tables = tables, q_hot_columns = columns,
      q_executions = 0, q_total_baseline_cost = 0, q_total_optimized_cost = 0,
      q_avg_improvement_pct = 0, q_min_improvement_pct = 100,
      q_max_improvement_pct = - 100, q_total_index_size_bytes = 0,
      q_used_indexes = []\<rparr>"

text \<open>Lines 457-462: \<^verbatim>\<open>self.index_info\<close> exists only once \<^verbatim>\<open>get_optimized_cost\<close> has
  stored it (\<^verbatim>\<open>hasattr\<close>); \<open>None\<close> stands for the missing attribute.\<close>

definition add_index_sizes :: "index_info option \<Rightarrow> query_stats \<Rightarrow> query_stats" where
  "add_index_sizes info entry =
     (case info of
        None \<Rightarrow> entry
      | Some ii \<Rightarrow>
          entry\<lparr>q_used_indexes := used_by_query ii,
                q_total_index_size_bytes :=
                  fold (\<lambda>idx total. total + ix_size_bytes idx) (used_by_query ii)
                       (q_total_index_size_bytes entry)\<rparr>)"

text \<open>Lines 447-462: the update of an entry by one sample.\<close>

definition update_entry ::
  "real \<Rightarrow> real \<Rightarrow> index_info option \<Rightarrow> query_stats \<Rightarrow> query_stats" where
  "update_entry baseline_cost optimized_cost info entry =
     (let e1 = entry\<lparr>q_executions := q_executions entry + 1,
                      q_total_baseline_cost := q_total_baseline_cost entry + baseline_cost,
                      q_total_optimized_cost := q_total_optimized_cost entry + optimized_cost\<rparr>;
          e2 = e1\<lparr>q_min_improvement_pct :=
                     min (q_min_improvement_pct e1) (improvement_pct baseline_cost optimized_cost),
                   q_max_improvement_pct :=
                     max (q_max_improvement_pct e1) (improvement_pct baseline_cost optimized_cost)\<rparr>;
          e3 = e2\<lparr>q_avg_improvement_pct :=
                     (if q_total_baseline_cost e2 > 0
                      then (q_total_baseline_cost e2 - q_total_optimized_cost e2)
                             / q_total_baseline_cost e2 * 100
                      else 0)\<rparr>
      in add_index_sizes info e3)"

text \<open>One measurement reaching the aggregation step: the query, its extracted tables and
  columns, the two costs (both not \<^verbatim>\<open>None\<close>), and \<^verbatim>\<open>self.index_info\<close> as it is at that
  moment.\<close>

record cost_sample =
  cs_query :: string
  cs_tables :: "string list"
  cs_columns :: "string list"
  cs_baseline_cost :: real
  cs_optimized_cost :: real
  cs_index_info :: "index_info option"

definition query_key :: "string \<Rightarrow> string" where
  "query_key query = take 100 query"

definition apply_sample :: "cost_sample \<Rightarrow> query_stats \<Rightarrow> query_stats" where
  "apply_sample s entry =
     update_entry (cs_baseline_cost s) (cs_optimized_cost s) (cs_index_info s) entry"

text \<open>Lines 429-462 on the whole statistics object: create the entry if the key is new,
  then update it in place.\<close>

definition record_execution :: "cost_sample \<Rightarrow> workload_stats \<Rightarrow> workload_stats" where
  "record_execution s stats =
     (let key = query_key (cs_query s);
          entry = (case map_of (ws_queries stats) key of
                     None \<Rightarrow> new_entry (cs_query s) (cs_tables s) (cs_columns s)
                   | Some e \<Rightarrow> e)
      in stats\<lparr>ws_queries := AList.update key (apply_sample s entry) (ws_queries stats)\<rparr>)"

definition samples_of :: "string \<Rightarrow> cost_sample list \<Rightarrow> cost_sample list" where
  "samples_of key ss = filter (\<lambda>s. query_key (cs_query s) = key) ss"

text \<open>The entry of one key after a run of samples that all carry this key.\<close>

fun entry_after :: "query_stats option \<Rightarrow> cost_sample list \<Rightarrow> query_stats option" where
  "entry_after eo [] = eo"
| "entry_after eo (s # ss) =
     entry_after
       (Some (apply_sample s
                (case eo of
                   None \<Rightarrow> new_entry (cs_query s) (cs_tables s) (cs_columns s)
                 | Some e \<Rightarrow> e))) ss"

definition sum_baseline :: "cost_sample list \<Rightarrow> real" where
  "sum_baseline ss = sum_list (map cs_baseline_cost ss)"

definition sum_optimized :: "cost_sample list \<Rightarrow> real" where
  "sum_optimized ss = sum_list (map cs_optimized_cost ss)"

definition nonneg_costs :: "cost_sample list \<Rightarrow> bool" where
  "nonneg_costs ss = list_all (\<lambda>s. 0 \<le> cs_baseline_cost s \<and> 0 \<le> cs_optimized_cost s) ss"

text \<open>The improvement of one sample, the bytes of the indexes it used, and the bytes an
  entry held before a run of samples.\<close>

definition sample_pct :: "cost_sample \<Rightarrow> real" where
  "sample_pct s = improvement_pct (cs_baseline_cost s) (cs_optimized_cost s)"

definition sample_index_bytes :: "cost_sample \<Rightarrow> int" where
  "sample_index_bytes s =
     (case cs_index_info s of
        None \<Rightarrow> 0
      | Some ii \<Rightarrow> sum_list (map ix_size_bytes (used_by_query ii)))"

definition prior_index_bytes :: "query_stats option \<Rightarrow> int" where
  "prior_index_bytes eo = (case eo of None \<Rightarrow> 0 | Some e \<Rightarrow> q_total_index_size_bytes e)"

section \<open>Saving the statistics (\<^verbatim>\<open>save_stats\<close>) and the life of a runner\<close>

text \<open>
  The runner object together with the two pieces of its environment that it changes: the
  hypothetical indexes active in the database session (their oids), and the statistics
  file \<^verbatim>\<open>workload_<id>_stats.json\<close>. Fields carry the prefix \<open>rn_\<close>.
\<close>

datatype file_state = NoFile | Snapshot workload_stats | Truncated

datatype io_outcome = Written | OpenFailed | WriteFailed

record runner =
  rn_workload_id :: int
  rn_stats :: workload_stats
  rn_existing_indexes :: "string set"
  rn_index_info :: "index_info option"
  rn_active :: "nat list"
  rn_file :: file_state

text \<open>\<^verbatim>\<open>WorkloadRunner.__init__\<close>; \<open>existing\<close> is what \<^verbatim>\<open>_get_existing_indexes\<close> returned,
  \<open>file0\<close> the statistics file as an earlier run may have left it.\<close>

definition init_runner ::
  "int \<Rightarrow> string set \<Rightarrow> timestamp \<Rightarrow> timestamp \<Rightarrow> nat list \<Rightarrow> file_state \<Rightarrow> runner" where
  "init_runner workload_id existing now_run now_save active0 file0 =
     \<lparr>rn_workload_id = workload_id, rn_stats = init_stats workload_id now_run now_save,
      rn_existing_indexes = existing, rn_index_info = None, rn_active = active0,
      rn_file = file0\<rparr>"

text \<open>
  \<^verbatim>\<open>save_stats\<close>, lines 519-530. \<^verbatim>\<open>json.dump(self.stats, f)\<close> runs first, and only then is
  \<^verbatim>\<open>self.stats['last_save']\<close> set to the current time \<open>now\<close>. When \<^verbatim>\<open>open\<close> raises the file
  is untouched; when the write raises, the file opened with mode \<^verbatim>\<open>'w'\<close> is left
  truncated. Both failures are caught and \<^verbatim>\<open>False\<close> is returned.
\<close>

definition save_stats :: "io_outcome \<Rightarrow> timestamp \<Rightarrow> runner \<Rightarrow> bool \<times> runner" where
  "save_stats io now r =
     (case io of
        Written \<Rightarrow>
          (True, r\<lparr>rn_file := Snapshot (rn_stats r),
                   rn_stats := (rn_stats r)\<lparr>ws_last_save := now\<rparr>\<rparr>)
      | OpenFailed \<Rightarrow> (False, r)
      | WriteFailed \<Rightarrow> (False, r\<lparr>rn_file := Truncated\<rparr>))"

text \<open>
  What \<^verbatim>\<open>run_phase\<close> and \<^verbatim>\<open>run_workload\<close> do to the runner, one event at a time: a sample
  is aggregated; the periodic save stores the sorted hot columns and calls
  \<^verbatim>\<open>save_stats\<close> (lines 466-471); the end of a phase counts the phase and stores the hot
  columns (lines 479-481); \<^verbatim>\<open>run_workload\<close> saves once more in its \<^verbatim>\<open>finally\<close> block. The
  list \<open>hot\<close> is \<^verbatim>\<open>sorted(list(all_hot_cols))\<close>; the wall-clock tests that decide when an
  event happens are not modelled.
\<close>

datatype event =
    Sample cost_sample
  | PeriodicSave "string list" io_outcome timestamp
  | PhaseEnd "string list"
  | FinalSave io_outcome timestamp

fun step :: "event \<Rightarrow> runner \<Rightarrow> runner" where
  "step (Sample s) r = r\<lparr>rn_stats := record_execution s (rn_stats r)\<rparr>"
| "step (PeriodicSave hot io now) r =
     snd (save_stats io now (r\<lparr>rn_stats := (rn_stats r)\<lparr>ws_hot_columns := hot\<rparr>\<rparr>))"
| "step (PhaseEnd hot) r =
     r\<lparr>rn_stats := (rn_stats r)\<lparr>ws_phases_completed := ws_phases_completed (rn_stats r) + 1,
                                ws_hot_columns := hot\<rparr>\<rparr>"
| "step (FinalSave io now) r = snd (save_stats io now r)"

text \<open>The times of the saves of a run that succeeded, in order.\<close>

fun written_times :: "event list \<Rightarrow> timestamp list" where
  "written_times [] = []"
| "written_times (PeriodicSave hot Written now # es) = now # written_times es"
| "written_times (FinalSave Written now # es) = now # written_times es"
| "written_times (e # es) = written_times es"

section \<open>The cost sampler (\<^verbatim>\<open>get_baseline_cost\<close>, \<^verbatim>\<open>get_optimized_cost\<close>)\<close>

text \<open>
  The database as the sampler sees it. Every request may raise; a response of \<open>None\<close>
  (or \<open>False\<close>) stands for a raised exception or a missing row, which the code treats
  alike.
  \<^item> \<open>cursor_resp\<close>: whether \<^verbatim>\<open>self.conn.cursor()\<close> of \<^verbatim>\<open>get_optimized_cost\<close> succeeds;
  \<^item> \<open>baseline_resp active query\<close>: the total cost of \<^verbatim>\<open>EXPLAIN (FORMAT JSON)\<close> with the
    hypothetical indexes \<open>active\<close> in the session;
  \<^item> \<open>create_resp active table combo\<close>: \<^verbatim>\<open>hypopg_create_index\<close>, giving the oid and the
    name of the new hypothetical index;
  \<^item> \<open>size_resp oid\<close>: \<^verbatim>\<open>hypopg_relation_size\<close>;
  \<^item> \<open>explain_resp active query\<close>: \<^verbatim>\<open>EXPLAIN (FORMAT JSON, VERBOSE)\<close>, giving the total
    cost and the text \<^verbatim>\<open>json.dumps(plan)\<close>;
  \<^item> \<open>drop_resp oid\<close>: whether \<^verbatim>\<open>hypopg_drop_index\<close> succeeds;
  \<^item> \<open>commit_resp\<close>: whether the closing \<^verbatim>\<open>self.conn.commit()\<close> succeeds.
  The \<^verbatim>\<open>CREATE EXTENSION\<close> statement at the head of \<^verbatim>\<open>get_optimized_cost\<close> sits in its own
  \<^verbatim>\<open>try\<close> block and changes nothing that is modelled here.
\<close>

record cost_oracle =
  cursor_resp :: bool
  baseline_resp :: "nat list \<Rightarrow> string \<Rightarrow> real option"
  create_resp :: "nat list \<Rightarrow> string \<Rightarrow> string list \<Rightarrow> (nat \<times> string) option"
  size_resp :: "nat \<Rightarrow> int option"
  explain_resp :: "nat list \<Rightarrow> string \<Rightarrow> (real \<times> string) option"
  drop_resp :: "nat \<Rightarrow> bool"
  commit_resp :: bool

text \<open>The tuples \<^verbatim>\<open>(oid, index_name, index_size, combo, table)\<close> of \<^verbatim>\<open>hyp_index_info\<close>.\<close>

record hyp_index =
  h_oid :: nat
  h_index_name :: string
  h_index_size :: int
  h_combo :: "string list"
  h_table :: string

definition get_baseline_cost :: "cost_oracle \<Rightarrow> nat list \<Rightarrow> string \<Rightarrow> real option" where
  "get_baseline_cost orc active query = baseline_resp orc active query"

text \<open>\<^verbatim>\<open>itertools.combinations(xs, k)\<close>: the \<open>k\<close>-element subsequences of \<open>xs\<close>, in
  lexicographic order of their positions.\<close>

fun combinations :: "'a list \<Rightarrow> nat \<Rightarrow> 'a list list" where
  "combinations xs 0 = [[]]"
| "combinations [] (Suc k) = []"
| "combinations (x # xs) (Suc k) =
     map ((#) x) (combinations xs k) @ combinations xs (Suc k)"

text \<open>Lines 127-143.\<close>

definition all_combinations :: "string list \<Rightarrow> string list list" where
  "all_combinations new_columns =
     map (\<lambda>col. [col]) new_columns
     @ (if length new_columns \<ge> 2 then combinations new_columns 2 else [])
     @ (if length new_columns \<ge> 3 then combinations new_columns 3 else [])"

definition max_indexes :: nat where
  "max_indexes = 50"

text \<open>
  Lines 151-177: the two nested loops. The state is the session's active oids,
  \<^verbatim>\<open>hyp_index_info\<close> and \<^verbatim>\<open>index_count\<close>. A creation that raises is skipped; a size
  request that raises gives size 0.
\<close>

fun create_combos ::
  "cost_oracle \<Rightarrow> string \<Rightarrow> string list list \<Rightarrow> nat list \<times> hyp_index list \<times> nat
     \<Rightarrow> nat list \<times> hyp_index list \<times> nat" where
  "create_combos orc tbl [] st = st"
| "create_combos orc tbl (combo # rest) (active, hyp_index_info, index_count) =
     (if index_count \<ge> max_indexes then (active, hyp_index_info, index_count)
      else case create_resp orc active tbl combo of
             None \<Rightarrow> create_combos orc tbl rest (active, hyp_index_info, index_count)
           | Some (oid, index_name) \<Rightarrow>
               create_combos orc tbl rest
                 (active @ [oid],
                  hyp_index_info @
                    [\<lparr>h_oid = oid, h_index_name = index_name,
                      h_index_size = (case size_resp orc oid of Some sz \<Rightarrow> sz | None \<Rightarrow> 0),
                      h_combo = combo, h_table = tbl\<rparr>],
                  index_count + 1))"

fun create_tables ::
  "cost_oracle \<Rightarrow> string list \<Rightarrow> string list list \<Rightarrow> nat list \<times> hyp_index list \<times> nat
     \<Rightarrow> nat list \<times> hyp_index list \<times> nat" where
  "create_tables orc [] combos st = st"
| "create_tables orc (tbl # tables) combos (active, hyp_index_info, index_count) =
     (if index_count \<ge> max_indexes then (active, hyp_index_info, index_count)
      else create_tables orc tables combos
             (create_combos orc tbl combos (active, hyp_index_info, index_count)))"

text \<open>
  The crossing as one loop: the pairs of a list are tried in order, a creation that raises
  is skipped, and the loop stops once \<open>max_indexes\<close> indexes have been created. The nested
  loops of the source are compared with this loop over the table-major list
  \<open>List.product tables combos\<close>.
\<close>

fun create_pairs ::
  "cost_oracle \<Rightarrow> (string \<times> string list) list \<Rightarrow> nat list \<times> hyp_index list \<times> nat
     \<Rightarrow> nat list \<times> hyp_index list \<times> nat" where
  "create_pairs orc [] st = st"
| "create_pairs orc ((tbl, combo) # rest) (active, hyp_index_info, index_count) =
     (if index_count \<ge> max_indexes then (active, hyp_index_info, index_count)
      else case create_resp orc active tbl combo of
             None \<Rightarrow> create_pairs orc rest (active, hyp_index_info, index_count)
           | Some (oid, index_name) \<Rightarrow>
               create_pairs orc rest
                 (active @ [oid],
                  hyp_index_info @
                    [\<lparr>h_oid = oid, h_index_name = index_name,
                      h_index_size = (case size_resp orc oid of Some sz \<Rightarrow> sz | None \<Rightarrow> 0),
                      h_combo = combo, h_table = tbl\<rparr>],
                  index_count + 1))"

text \<open>\<open>subsequence_of xs ys\<close>: \<open>xs\<close> is \<open>ys\<close> with some elements left out, the order kept.\<close>

fun subsequence_of :: "'a list \<Rightarrow> 'a list \<Rightarrow> bool" where
  "subsequence_of [] ys = True"
| "subsequence_of (x # xs) [] = False"
| "subsequence_of (x # xs) (y # ys) =
     (if x = y then subsequence_of xs ys else subsequence_of (x # xs) ys)"

text \<open>Line 195: \<^verbatim>\<open>index_name in plan_str\<close>, the substring test.\<close>

fun contains_str :: "string \<Rightarrow> string \<Rightarrow> bool" where
  "contains_str sub [] = (sub = [])"
| "contains_str sub (c # cs) = (take (length sub) (c # cs) = sub \<or> contains_str sub cs)"

definition to_used :: "hyp_index \<Rightarrow> used_index" where
  "to_used h = \<lparr>ix_index_name = h_index_name h, ix_columns = h_combo h,
                ix_table = h_table h, ix_size_bytes = h_index_size h\<rparr>"

definition used_in_plan :: "string \<Rightarrow> hyp_index list \<Rightarrow> used_index list" where
  "used_in_plan plan_str hyp_index_info =
     map to_used (filter (\<lambda>h. contains_str (h_index_name h) plan_str) hyp_index_info)"

text \<open>Lines 223-228: one drop request per recorded oid; a request that raises is
  ignored and leaves the index in the session.\<close>

definition drop_all :: "cost_oracle \<Rightarrow> hyp_index list \<Rightarrow> nat list \<Rightarrow> nat list" where
  "drop_all orc hyp_index_info active =
     fold (\<lambda>h act. if drop_resp orc (h_oid h) then removeAll (h_oid h) act else act)
          hyp_index_info active"

definition new_columns_of :: "runner \<Rightarrow> string list \<Rightarrow> string list" where
  "new_columns_of r columns = filter (\<lambda>col. col \<notin> rn_existing_indexes r) columns"

text \<open>The hypothetical indexes a call creates (the final \<^verbatim>\<open>hyp_index_info\<close>), or none
  when the call returns before the loops.\<close>

definition created_by_call ::
  "cost_oracle \<Rightarrow> string list \<Rightarrow> string list \<Rightarrow> runner \<Rightarrow> hyp_index list" where
  "created_by_call orc tables columns r =
     (if \<not> cursor_resp orc \<or> tables = [] \<or> columns = [] \<or> new_columns_of r columns = []
      then []
      else fst (snd (create_tables orc tables (all_combinations (new_columns_of r columns))
                       (rn_active r, [], 0))))"

text \<open>The with-hypotheticals estimate of lines 179-203: the cost, if it was obtained,
  and the indexes whose names occur in the plan.\<close>

definition explain_with_hypotheticals ::
  "cost_oracle \<Rightarrow> string \<Rightarrow> nat list \<Rightarrow> hyp_index list \<Rightarrow> real option \<times> used_index list" where
  "explain_with_hypotheticals orc query active hyp_index_info =
     (if hyp_index_info \<noteq> []
      then (case explain_resp orc active query of
              None \<Rightarrow> (None, [])
            | Some (c, plan_str) \<Rightarrow> (Some c, used_in_plan plan_str hyp_index_info))
      else (None, []))"

text \<open>
  \<^verbatim>\<open>get_optimized_cost\<close>, lines 96-240. The result is the returned cost (\<open>None\<close> for
  Python's \<^verbatim>\<open>None\<close>) and the runner with \<^verbatim>\<open>self.index_info\<close> and the session updated. An
  exception of the cursor or of the closing commit reaches the outer \<^verbatim>\<open>except\<close> clause,
  after which \<^verbatim>\<open>None\<close> is returned.
\<close>

definition get_optimized_cost ::
  "cost_oracle \<Rightarrow> string \<Rightarrow> string list \<Rightarrow> string list \<Rightarrow> runner \<Rightarrow> real option \<times> runner" where
  "get_optimized_cost orc query tables columns r =
     (if \<not> cursor_resp orc then (None, r)
      else if tables = [] \<or> columns = [] then (None, r)
      else
        let new_columns = new_columns_of r columns in
        if new_columns = [] then (get_baseline_cost orc (rn_active r) query, r)
        else
          let baseline_cost = get_baseline_cost orc (rn_active r) query;
              created = create_tables orc tables (all_combinations new_columns)
                          (rn_active r, [], 0);
              active = fst created;
              hyp_index_info = fst (snd created);
              estimate = explain_with_hypotheticals orc query active hyp_index_info;
              r' = r\<lparr>rn_index_info :=
                        Some \<lparr>all_created = map to_used hyp_index_info,
                              used_by_query = snd estimate\<rparr>,
                      rn_active := drop_all orc hyp_index_info active\<rparr>
          in if \<not> commit_resp orc then (None, r')
             else (case fst estimate of
                     Some cost \<Rightarrow> (Some cost, r')
                   | None \<Rightarrow> (baseline_cost, r')))"

text \<open>The table and the columns of a hypothetical index.\<close>

definition hyp_key :: "hyp_index \<Rightarrow> string \<times> string list" where
  "hyp_key h = (h_table h, h_combo h)"

text \<open>The with-hypotheticals estimate a call obtains, \<open>None\<close> when it obtains none: no new
  column, no index created, or a failed \<^verbatim>\<open>EXPLAIN\<close>.\<close>

definition hypothetical_estimate ::
  "cost_oracle \<Rightarrow> string \<Rightarrow> string list \<Rightarrow> string list \<Rightarrow> runner \<Rightarrow> real option" where
  "hypothetical_estimate orc query tables columns r =
     (if new_columns_of r columns = [] then None
      else
        let created = create_tables orc tables (all_combinations (new_columns_of r columns))
                        (rn_active r, [], 0)
        in fst (explain_with_hypotheticals orc query (fst created) (fst (snd created))))"

text \<open>
  The body of the loop of \<^verbatim>\<open>run_phase\<close> for one query (lines 399-462), given the tables
  and columns that the two extraction functions returned for it. A query without
  tables or columns, or with a cost of \<^verbatim>\<open>None\<close>, is skipped and not counted.
\<close>

definition run_query ::
  "cost_oracle \<Rightarrow> string \<Rightarrow> string list \<Rightarrow> string list \<Rightarrow> runner \<Rightarrow> runner" where
  "run_query orc query tables columns r =
     (if tables = [] \<or> columns = [] then r
      else case get_baseline_cost orc (rn_active r) query of
             None \<Rightarrow> r
           | Some baseline_cost \<Rightarrow>
               (case get_optimized_cost orc query tables columns r of
                  (None, r1) \<Rightarrow> r1
                | (Some optimized_cost, r1) \<Rightarrow>
                    r1\<lparr>rn_stats :=
                         record_execution
                           \<lparr>cs_query = query, cs_tables = tables, cs_columns = columns,
                            cs_baseline_cost = baseline_cost,
                            cs_optimized_cost = optimized_cost,
                            cs_index_info = rn_index_info r1\<rparr>
                           (rn_stats r1)\<rparr>))"

section \<open>The decision engine (alerter.py)\<close>

text \<open>
  The statistics file as \<^verbatim>\<open>json.load\<close> returns it: the snapshot written by the runner,
  and, for files of the older format, a list \<^verbatim>\<open>measurements\<close> (empty when the key is
  absent). An entry of \<^verbatim>\<open>queries\<close> has all the fields the runner writes, so the defaults
  of \<^verbatim>\<open>.get\<close> are never used.
\<close>

record measurement =
  m_baseline_cost :: real
  m_optimized_cost :: real
  m_improvement_pct :: real
  m_hot_columns :: "string list"

record snapshot = workload_stats +
  sn_measurements :: "measurement list"

text \<open>\<^verbatim>\<open>Alerter.__init__\<close>: the budget is converted from MB to bytes.\<close>

record alerter =
  improvement_threshold :: real
  max_space_budget :: int

definition alerter_init :: "real \<Rightarrow> int \<Rightarrow> alerter" where
  "alerter_init threshold max_space_budget_mb =
     \<lparr>improvement_threshold = threshold, max_space_budget = max_space_budget_mb * 1000000\<rparr>"

text \<open>
  The database as the decision engine sees it:
  \<^item> \<open>index_names_resp\<close>: the index names of table \<^verbatim>\<open>orders\<close> listed by \<^verbatim>\<open>pg_indexes\<close>, or
    \<open>None\<close> when the query raises (\<^verbatim>\<open>get_existing_indexes\<close> catches nothing);
  \<^item> \<open>count_cost_resp k\<close>: the total cost returned by the \<open>k\<close>-th
    \<^verbatim>\<open>EXPLAIN ... SELECT COUNT(*) FROM orders\<close> of the invocation, \<open>None\<close> when it raises
    or returns no row;
  \<^item> \<open>size_probe_resp column\<close>: the outcome of building, measuring and dropping the
    temporary index on \<open>column\<close>.
\<close>

datatype size_probe = ProbeRaised | ProbeRow "int option"

record alerter_db =
  index_names_resp :: "string list option"
  count_cost_resp :: "nat \<Rightarrow> real option"
  size_probe_resp :: "string \<Rightarrow> size_probe"

text \<open>Python's \<^verbatim>\<open>s.replace(old, new)\<close>: all non-overlapping occurrences, left to right.\<close>

function str_replace :: "string \<Rightarrow> string \<Rightarrow> string \<Rightarrow> string" where
  "str_replace old new s =
     (if old = [] then new @ concat (map (\<lambda>c. c # new) s)
      else if s = [] then []
      else if take (length old) s = old
           then new @ str_replace old new (drop (length old) s)
           else hd s # str_replace old new (tl s))"
  by pat_completeness auto
termination
  by (relation "measure (\<lambda>(old, new, s). length s)") auto

declare str_replace.simps [simp del]

text \<open>\<^verbatim>\<open>get_existing_indexes\<close>, applied to the index names the catalog returned.\<close>

definition get_existing_indexes :: "string list \<Rightarrow> string set" where
  "get_existing_indexes names =
     set (map (\<lambda>idx. str_replace ''idx_opt_'' [] (str_replace ''idx_'' [] idx))
              (filter (contains_str ''idx_'') names))"

definition get_real_index_size :: "alerter_db \<Rightarrow> string \<Rightarrow> int" where
  "get_real_index_size db column =
     (case size_probe_resp db column of
        ProbeRaised \<Rightarrow> 5000000
      | ProbeRow None \<Rightarrow> 5000000
      | ProbeRow (Some size_bytes) \<Rightarrow> size_bytes)"

definition estimate_create_index_cost :: "alerter_db \<Rightarrow> nat \<Rightarrow> real" where
  "estimate_create_index_cost db k =
     (case count_cost_resp db k of Some c \<Rightarrow> c | None \<Rightarrow> 1000)"

definition estimate_drop_index_cost :: "alerter_db \<Rightarrow> nat \<Rightarrow> real" where
  "estimate_drop_index_cost db k = estimate_create_index_cost db k * (2 / 10)"

text \<open>\<^verbatim>\<open>d[col] = d.get(col, 0) + 1\<close> on an insertion-ordered dictionary.\<close>

definition count_column :: "string \<Rightarrow> (string \<times> nat) list \<Rightarrow> (string \<times> nat) list" where
  "count_column col counts =
     AList.update col ((case map_of counts col of None \<Rightarrow> 0 | Some n \<Rightarrow> n) + 1) counts"

text \<open>\<^verbatim>\<open>sorted(d.items(), key=lambda x: x[1], reverse=True)\<close>. Python's sort is stable, also
  with \<^verbatim>\<open>reverse=True\<close>: it is the stable ascending sort on the negated count.\<close>

definition sort_by_frequency :: "(string \<times> nat) list \<Rightarrow> (string \<times> nat) list" where
  "sort_by_frequency items = sort_key (\<lambda>item. - int (snd item)) items"

definition extract_hot_columns_from_measurements ::
  "measurement list \<Rightarrow> (string \<times> nat) list" where
  "extract_hot_columns_from_measurements measurements =
     sort_by_frequency (fold (\<lambda>m counts. fold count_column (m_hot_columns m) counts)
                             measurements [])"

text \<open>Lines 143-172: the sums collected over the snapshot.\<close>

record tally =
  total_baseline_cost :: real
  total_improvement_cost :: real
  all_improvement_pcts :: "real list"
  hot_columns_all_dict :: "(string \<times> nat) list"

definition tally0 :: tally where
  "tally0 = \<lparr>total_baseline_cost = 0, total_improvement_cost = 0,
             all_improvement_pcts = [], hot_columns_all_dict = []\<rparr>"

definition tally_query :: "query_stats \<Rightarrow> tally \<Rightarrow> tally" where
  "tally_query query_data t =
     \<lparr>total_baseline_cost = total_baseline_cost t + q_total_baseline_cost query_data,
      total_improvement_cost =
        total_improvement_cost t
          + (q_total_baseline_cost query_data - q_total_optimized_cost query_data),
      all_improvement_pcts = all_improvement_pcts t @ [q_avg_improvement_pct query_data],
      hot_columns_all_dict =
        fold count_column (q_hot_columns query_data) (hot_columns_all_dict t)\<rparr>"

definition tally_measurement :: "measurement \<Rightarrow> tally \<Rightarrow> tally" where
  "tally_measurement m t =
     t\<lparr>total_baseline_cost := total_baseline_cost t + m_baseline_cost m,
       total_improvement_cost :=
         total_improvement_cost t + (m_baseline_cost m - m_optimized_cost m),
       all_improvement_pcts := all_improvement_pcts t @ [m_improvement_pct m]\<rparr>"

definition tally_stats :: "snapshot \<Rightarrow> tally" where
  "tally_stats stats =
     (if ws_queries stats \<noteq> []
      then fold (\<lambda>item. tally_query (snd item)) (ws_queries stats) tally0
      else fold tally_measurement (sn_measurements stats) tally0)"

text \<open>Line 175.\<close>

definition mean_pct :: "real list \<Rightarrow> real" where
  "mean_pct pcts = (if pcts \<noteq> [] then sum_list pcts / real (length pcts) else 0)"

definition avg_improvement_pct :: "snapshot \<Rightarrow> real" where
  "avg_improvement_pct stats = mean_pct (all_improvement_pcts (tally_stats stats))"

text \<open>Lines 191-197: the ranking of the hot columns and the candidates.\<close>

definition hot_columns_all :: "snapshot \<Rightarrow> (string \<times> nat) list" where
  "hot_columns_all stats =
     (if hot_columns_all_dict (tally_stats stats) \<noteq> []
      then sort_by_frequency (hot_columns_all_dict (tally_stats stats))
      else extract_hot_columns_from_measurements (sn_measurements stats))"

definition candidates_of :: "string set \<Rightarrow> snapshot \<Rightarrow> string list" where
  "candidates_of existing stats =
     take 3 (filter (\<lambda>col. col \<notin> existing) (map fst (hot_columns_all stats)))"

text \<open>
  Lines 219-227: the loop over the candidates. The state is the number of cost requests
  made so far, \<^verbatim>\<open>total_retuning_cost\<close> and the dictionary \<^verbatim>\<open>index_sizes\<close>. Each round asks
  for the cost twice: once in \<^verbatim>\<open>estimate_create_index_cost\<close> and once more inside
  \<^verbatim>\<open>estimate_drop_index_cost\<close>.
\<close>

fun retuning_loop ::
  "alerter_db \<Rightarrow> string list \<Rightarrow> nat \<times> real \<times> (string \<times> int) list
     \<Rightarrow> nat \<times> real \<times> (string \<times> int) list" where
  "retuning_loop db [] st = st"
| "retuning_loop db (col # cols) (k, total_retuning_cost, index_sizes) =
     retuning_loop db cols
       (k + 2,
        total_retuning_cost
          + (estimate_create_index_cost db k + estimate_drop_index_cost db (k + 1)),
        AList.update col (get_real_index_size db col) index_sizes)"

definition total_retuning_cost_of :: "alerter_db \<Rightarrow> string list \<Rightarrow> real" where
  "total_retuning_cost_of db candidates = fst (snd (retuning_loop db candidates (0, 0, [])))"

definition index_sizes_of :: "alerter_db \<Rightarrow> string list \<Rightarrow> (string \<times> int) list" where
  "index_sizes_of db candidates = snd (snd (retuning_loop db candidates (0, 0, [])))"

definition net_benefit_of :: "alerter_db \<Rightarrow> snapshot \<Rightarrow> string list \<Rightarrow> real" where
  "net_benefit_of db stats candidates =
     total_improvement_cost (tally_stats stats) - total_retuning_cost_of db candidates"

definition total_new_space_of :: "alerter_db \<Rightarrow> string list \<Rightarrow> int" where
  "total_new_space_of db candidates = sum_list (map snd (index_sizes_of db candidates))"

text \<open>
  The recommendation. The reason is a formatted string in the source; here it is the
  kind of the message with the numbers that are formatted into it.
\<close>

datatype decision = NO_ACTION | CREATE_INDEXES

datatype reason =
    AllHotColumnsIndexed
  | BelowThreshold real real
  | NetBenefitNotPositive real
  | ExceedsBudget int int
  | Worthwhile real real real

record recommended_index =
  ri_name :: string
  ri_column :: string
  ri_estimated_size_mb :: real

record recommendation =
  rec_timestamp :: timestamp
  rec_workload_id :: int
  rec_decision :: decision
  rec_reason :: reason
  rec_improvement_pct :: real
  rec_improvement_value :: real
  rec_retuning_cost :: real
  rec_net_benefit :: real
  rec_recommended_indexes :: "recommended_index list"

text \<open>Python's \<^verbatim>\<open>round(x, 2)\<close> on the exact value: to the nearest hundredth, a tie to the
  even one.\<close>

definition round_half_even :: "real \<Rightarrow> int" where
  "round_half_even x =
     (if x - of_int \<lfloor>x\<rfloor> < 1 / 2 then \<lfloor>x\<rfloor>
      else if x - of_int \<lfloor>x\<rfloor> > 1 / 2 then \<lfloor>x\<rfloor> + 1
      else if even \<lfloor>x\<rfloor> then \<lfloor>x\<rfloor> else \<lfloor>x\<rfloor> + 1)"

definition round2 :: "real \<Rightarrow> real" where
  "round2 x = of_int (round_half_even (x * 100)) / 100"

text \<open>Lines 244-259: the guards, in the order of the \<^verbatim>\<open>if\<close>/\<^verbatim>\<open>elif\<close> chain.\<close>

definition decide :: "alerter \<Rightarrow> real \<Rightarrow> real \<Rightarrow> int \<Rightarrow> decision \<times> reason" where
  "decide self avg net_benefit total_new_space =
     (if avg < improvement_threshold self
      then (NO_ACTION, BelowThreshold avg (improvement_threshold self))
      else if net_benefit \<le> 0
      then (NO_ACTION, NetBenefitNotPositive net_benefit)
      else if total_new_space > max_space_budget self
      then (NO_ACTION, ExceedsBudget total_new_space (max_space_budget self))
      else (CREATE_INDEXES, Worthwhile avg (improvement_threshold self) net_benefit))"

text \<open>Lines 261-269. Every candidate is a key of \<^verbatim>\<open>index_sizes\<close>, so the lookup finds it.\<close>

definition recommended_indexes_of ::
  "decision \<Rightarrow> string list \<Rightarrow> (string \<times> int) list \<Rightarrow> recommended_index list" where
  "recommended_indexes_of d candidates index_sizes =
     (if d = CREATE_INDEXES
      then map (\<lambda>col. \<lparr>ri_name = ''idx_opt_'' @ col, ri_column = col,
                       ri_estimated_size_mb =
                         real_of_int (case map_of index_sizes col of Some sz \<Rightarrow> sz | None \<Rightarrow> 0)
                           / 1000000\<rparr>)
               candidates
      else [])"

datatype alerter_error = CatalogQueryFailed

text \<open>
  \<^verbatim>\<open>analyze_workload\<close>, lines 112-295, without the printing. \<open>loaded\<close> is the result of
  \<^verbatim>\<open>load_workload_stats\<close> (\<open>None\<close> when the file is missing), \<open>now\<close> the clock. The result
  is the exception leaving the function, or the returned value: \<^verbatim>\<open>None\<close> or a
  recommendation.
\<close>

definition analyze_workload ::
  "alerter \<Rightarrow> alerter_db \<Rightarrow> snapshot option \<Rightarrow> timestamp \<Rightarrow> int
     \<Rightarrow> alerter_error + recommendation option" where
  "analyze_workload self db loaded now workload_id =
     (case loaded of
        None \<Rightarrow> Inr None
      | Some stats \<Rightarrow>
          if ws_queries stats = [] \<and> sn_measurements stats = [] then Inr None
          else
            (case index_names_resp db of
               None \<Rightarrow> Inl CatalogQueryFailed
             | Some names \<Rightarrow>
                 let candidates = candidates_of (get_existing_indexes names) stats in
                 if candidates = []
                 then Inr (Some
                        \<lparr>rec_timestamp = now, rec_workload_id = workload_id,
                         rec_decision = NO_ACTION, rec_reason = AllHotColumnsIndexed,
                         rec_improvement_pct = round2 (avg_improvement_pct stats),
                         rec_improvement_value =
                           round2 (total_improvement_cost (tally_stats stats)),
                         rec_retuning_cost = 0, rec_net_benefit = 0,
                         rec_recommended_indexes = []\<rparr>)
                 else
                   let verdict = decide self (avg_improvement_pct stats)
                                   (net_benefit_of db stats candidates)
                                   (total_new_space_of db candidates)
                   in Inr (Some
                        \<lparr>rec_timestamp = now, rec_workload_id = workload_id,
                         rec_decision = fst verdict, rec_reason = snd verdict,
                         rec_improvement_pct = round2 (avg_improvement_pct stats),
                         rec_improvement_value =
                           round2 (total_improvement_cost (tally_stats stats)),
                         rec_retuning_cost = round2 (total_retuning_cost_of db candidates),
                         rec_net_benefit = round2 (net_benefit_of db stats candidates),
                         rec_recommended_indexes =
                           recommended_indexes_of (fst verdict) candidates
                             (index_sizes_of db candidates)\<rparr>)))"

text \<open>The value of an invocation apart from the time at which it ran.\<close>

definition without_timestamp ::
  "alerter_error + recommendation option \<Rightarrow> alerter_error + recommendation option" where
  "without_timestamp res =
     (case res of
        Inl e \<Rightarrow> Inl e
      | Inr None \<Rightarrow> Inr None
      | Inr (Some r) \<Rightarrow> Inr (Some (r\<lparr>rec_timestamp := []\<rparr>)))"

text \<open>The first occurrences of a list, in order: the order in which an insertion-ordered
  dictionary lists keys inserted in this sequence.\<close>

definition first_seen :: "'a list \<Rightarrow> 'a list" where
  "first_seen xs = fold (\<lambda>x acc. if x \<in> set acc then acc else acc @ [x]) xs []"

text \<open>The hot columns in the order the decision engine meets them.\<close>

definition observed_columns :: "snapshot \<Rightarrow> string list" where
  "observed_columns stats =
     (if concat (map (\<lambda>item. q_hot_columns (snd item)) (ws_queries stats)) \<noteq> []
      then concat (map (\<lambda>item. q_hot_columns (snd item)) (ws_queries stats))
      else concat (map m_hot_columns (sn_measurements stats)))"

section \<open>Example inputs\<close>

definition demo_index :: used_index where
  "demo_index = \<lparr>ix_index_name = ''<13>btree_orders_o_custkey'', ix_columns = [''o_custkey''],
                 ix_table = ''orders'', ix_size_bytes = 8192\<rparr>"

definition demo_sample :: "real \<Rightarrow> real \<Rightarrow> index_info option \<Rightarrow> cost_sample" where
  "demo_sample b c info =
     \<lparr>cs_query = ''SELECT 1'', cs_tables = [''orders''], cs_columns = [''o_custkey''],
      cs_baseline_cost = b, cs_optimized_cost = c, cs_index_info = info\<rparr>"

definition demo_events :: "event list" where
  "demo_events =
     [Sample (demo_sample 600 300 None),
      PeriodicSave [''o_custkey''] Written ''2024-01-01T00:00:10'',
      Sample (demo_sample 400 100 None),
      PeriodicSave [''o_custkey''] WriteFailed ''2024-01-01T00:00:20'',
      PhaseEnd [''o_custkey'']]"

definition demo_runner :: runner where
  "demo_runner = init_runner 1 {} ''2024-01-01T00:00:00'' ''2024-01-01T00:00:01'' [] NoFile"

text \<open>A database in which every request succeeds, and variants in which the drop
  requests, the closing commit or the \<^verbatim>\<open>EXPLAIN\<close> with hypothetical indexes raise.\<close>

definition demo_oracle :: cost_oracle where
  "demo_oracle =
     \<lparr>cursor_resp = True,
      baseline_resp = (\<lambda>active query. Some 1000),
      create_resp = (\<lambda>active tbl combo.
         Some (length active + 1, ''btree_'' @ tbl @ ''_'' @ concat combo)),
      size_resp = (\<lambda>oid. Some 8192),
      explain_resp = (\<lambda>active query. Some (400, ''Index Scan using btree_orders_o_custkey'')),
      drop_resp = (\<lambda>oid. True),
      commit_resp = True\<rparr>"

definition leaky_oracle :: cost_oracle where
  "leaky_oracle = demo_oracle\<lparr>drop_resp := (\<lambda>oid. False)\<rparr>"

definition broken_commit_oracle :: cost_oracle where
  "broken_commit_oracle = demo_oracle\<lparr>commit_resp := False\<rparr>"

definition failing_explain_oracle :: cost_oracle where
  "failing_explain_oracle = demo_oracle\<lparr>explain_resp := (\<lambda>active query. None)\<rparr>"

text \<open>A database that refuses the single-column index on \<open>o_totalprice\<close>.\<close>

definition picky_oracle :: cost_oracle where
  "picky_oracle =
     demo_oracle\<lparr>create_resp := (\<lambda>active tbl combo.
        if combo = [''o_totalprice''] then None
        else Some (length active + 1, ''btree_'' @ tbl @ ''_'' @ concat combo))\<rparr>"

definition seven_columns :: "string list" where
  "seven_columns = [''c1'', ''c2'', ''c3'', ''c4'', ''c5'', ''c6'', ''c7'']"

text \<open>Snapshots and a database for the decision engine. \<open>scenario_a\<close> has two query
  shapes: one with 10 executions and a weighted improvement of 60 percent, one with 5
  executions and 2 percent. In \<open>tie_snapshot\<close> three columns occur in two shapes each.\<close>

definition demo_query_stats ::
  "string \<Rightarrow> string list \<Rightarrow> nat \<Rightarrow> real \<Rightarrow> real \<Rightarrow> real \<Rightarrow> query_stats" where
  "demo_query_stats query hot n b c pct =
     \<lparr>q_full_query = query, q_tables = [''orders''], q_hot_columns = hot,
      q_executions = n, q_total_baseline_cost = b, q_total_optimized_cost = c,
      q_avg_improvement_pct = pct, q_min_improvement_pct = pct,
      q_max_improvement_pct = pct, q_total_index_size_bytes = 0, q_used_indexes = []\<rparr>"

definition demo_snapshot :: "(string \<times> query_stats) list \<Rightarrow> snapshot" where
  "demo_snapshot qs =
     \<lparr>ws_workload_id = 1, ws_run_time = ''2024-01-01T00:00:00'', ws_queries = qs,
      ws_phases_completed = 4, ws_hot_columns = [], ws_last_save = ''2024-01-01T00:02:00'',
      sn_measurements = []\<rparr>"

definition scenario_a :: snapshot where
  "scenario_a =
     demo_snapshot
       [(''X'', demo_query_stats ''X'' [''o_totalprice'', ''o_custkey''] 10 1000 400 60),
        (''Y'', demo_query_stats ''Y'' [''o_shipmode'', ''o_custkey'', ''o_totalprice''] 5 500 490 2)]"

definition below_threshold_snapshot :: snapshot where
  "below_threshold_snapshot =
     demo_snapshot [(''Z'', demo_query_stats ''Z'' [''o_custkey''] 3 100000 90000 10)]"

definition tie_snapshot :: snapshot where
  "tie_snapshot =
     demo_snapshot
       [(''X'', demo_query_stats ''X'' [''o_shipmode'', ''o_custkey''] 10 1000 400 60),
        (''Y'', demo_query_stats ''Y'' [''o_totalprice'', ''o_custkey'', ''o_shipmode''] 5 500 490 2),
        (''Z'', demo_query_stats ''Z'' [''o_totalprice'', ''o_clerk''] 1 10 10 0)]"

definition demo_db :: alerter_db where
  "demo_db =
     \<lparr>index_names_resp = Some [''orders_pkey'', ''idx_o_orderdate''],
      count_cost_resp = (\<lambda>k. Some 1000),
      size_probe_resp = (\<lambda>column. ProbeRow (Some 4000000))\<rparr>"

section \<open>Lemmas on the aggregation step\<close>

lemma lookup_record_execution:
  "map_of (ws_queries (record_execution s stats)) k =
     (if query_key (cs_query s) = k
      then Some (apply_sample s
                   (case map_of (ws_queries stats) k of
                      None \<Rightarrow> new_entry (cs_query s) (cs_tables s) (cs_columns s)
                    | Some e \<Rightarrow> e))
      else map_of (ws_queries stats) k)"
  by (simp add: record_execution_def Let_def update_conv')

lemma lookup_fold_record:
  "map_of (ws_queries (fold record_execution ss stats)) k =
     entry_after (map_of (ws_queries stats) k) (samples_of k ss)"
proof (induction ss arbitrary: stats)
  case Nil
  show ?case by (simp add: samples_of_def)
next
  case (Cons s ss)
  show ?case
    using Cons.IH [of "record_execution s stats"]
    by (simp add: samples_of_def lookup_record_execution)
qed

lemma entry_after_snoc:
  "entry_after eo (ss @ [s]) =
     Some (apply_sample s
             (case entry_after eo ss of
                None \<Rightarrow> new_entry (cs_query s) (cs_tables s) (cs_columns s)
              | Some e \<Rightarrow> e))"
  by (induction ss arbitrary: eo) simp_all

lemma add_index_sizes_fields [simp]:
  "q_total_baseline_cost (add_index_sizes info e) = q_total_baseline_cost e"
  "q_total_optimized_cost (add_index_sizes info e) = q_total_optimized_cost e"
  "q_avg_improvement_pct (add_index_sizes info e) = q_avg_improvement_pct e"
  "q_min_improvement_pct (add_index_sizes info e) = q_min_improvement_pct e"
  "q_max_improvement_pct (add_index_sizes info e) = q_max_improvement_pct e"
  "q_executions (add_index_sizes info e) = q_executions e"
  by (simp_all add: add_index_sizes_def split: option.splits)

lemma apply_sample_totals:
  "q_total_baseline_cost (apply_sample s e) = q_total_baseline_cost e + cs_baseline_cost s"
  "q_total_optimized_cost (apply_sample s e) = q_total_optimized_cost e + cs_optimized_cost s"
  "q_executions (apply_sample s e) = Suc (q_executions e)"
  by (simp_all add: apply_sample_def update_entry_def Let_def)

lemma apply_sample_avg:
  "q_avg_improvement_pct (apply_sample s e) =
     (if q_total_baseline_cost (apply_sample s e) > 0
      then (q_total_baseline_cost (apply_sample s e) - q_total_optimized_cost (apply_sample s e))
             / q_total_baseline_cost (apply_sample s e) * 100
      else 0)"
  by (simp add: apply_sample_def update_entry_def Let_def)

lemma entry_after_totals:
  "ss \<noteq> [] \<Longrightarrow> entry_after None ss = Some e \<Longrightarrow>
     q_total_baseline_cost e = sum_baseline ss \<and>
     q_total_optimized_cost e = sum_optimized ss \<and>
     q_executions e = length ss"
proof (induction ss arbitrary: e rule: rev_induct)
  case Nil
  then show ?case by simp
next
  case (snoc s ss)
  show ?case
  proof (cases "ss = []")
    case True
    with snoc.prems show ?thesis
      by (auto simp: apply_sample_totals new_entry_def sum_baseline_def sum_optimized_def)
  next
    case False
    then obtain e0 where e0: "entry_after None ss = Some e0"
      by (cases ss rule: rev_cases) (auto simp: entry_after_snoc)
    from snoc.IH [OF False e0] snoc.prems(2) e0 show ?thesis
      by (auto simp: entry_after_snoc apply_sample_totals sum_baseline_def sum_optimized_def)
  qed
qed

lemma entry_after_avg:
  "ss \<noteq> [] \<Longrightarrow> entry_after None ss = Some e \<Longrightarrow>
     q_avg_improvement_pct e =
       (if q_total_baseline_cost e > 0
        then (q_total_baseline_cost e - q_total_optimized_cost e) / q_total_baseline_cost e * 100
        else 0)"
  by (cases ss rule: rev_cases) (auto simp: entry_after_snoc apply_sample_avg)

lemma entry_after_None:
  "entry_after None ss = None \<longleftrightarrow> ss = []"
  by (cases ss rule: rev_cases) (auto simp: entry_after_snoc)

lemma sum_nonneg_costs:
  "nonneg_costs ss \<Longrightarrow> 0 \<le> sum_baseline ss \<and> 0 \<le> sum_optimized ss"
  by (induction ss) (auto simp: nonneg_costs_def sum_baseline_def sum_optimized_def)

lemma ratio_le_100:
  fixes b :: real
  assumes "0 < b" "0 \<le> c"
  shows "(b - c) / b * 100 \<le> 100"
  using assms by (simp add: field_simps)

lemma apply_sample_min_max:
  "q_min_improvement_pct (apply_sample s e) = min (q_min_improvement_pct e) (sample_pct s)"
  "q_max_improvement_pct (apply_sample s e) = max (q_max_improvement_pct e) (sample_pct s)"
  by (simp_all add: apply_sample_def update_entry_def Let_def sample_pct_def)

lemma entry_after_min_max:
  "ss \<noteq> [] \<Longrightarrow> entry_after None ss = Some e \<Longrightarrow>
     q_min_improvement_pct e = min 100 (Min (sample_pct ` set ss)) \<and>
     q_max_improvement_pct e = max (- 100) (Max (sample_pct ` set ss))"
proof (induction ss arbitrary: e rule: rev_induct)
  case Nil
  then show ?case by simp
next
  case (snoc s ss)
  show ?case
  proof (cases "ss = []")
    case True
    with snoc.prems show ?thesis
      by (auto simp: apply_sample_min_max new_entry_def)
  next
    case False
    then obtain e0 where e0: "entry_after None ss = Some e0"
      using entry_after_None [of ss] by (cases "entry_after None ss") auto
    have fin: "finite (sample_pct ` set ss)" "sample_pct ` set ss \<noteq> {}"
      using False by auto
    from snoc.IH [OF False e0] snoc.prems(2) e0 fin show ?thesis
      by (auto simp: entry_after_snoc apply_sample_min_max min.assoc max.assoc min.commute max.commute)
  qed
qed

lemma sample_pct_le_100:
  "0 \<le> cs_baseline_cost s \<Longrightarrow> 0 \<le> cs_optimized_cost s \<Longrightarrow> sample_pct s \<le> 100"
  using ratio_le_100 [of "cs_baseline_cost s" "cs_optimized_cost s"]
  by (simp add: sample_pct_def improvement_pct_def)

text \<open>What the code stores as minimum and maximum, for samples with non-negative costs:
  the minimum over the samples, and the larger of \<open>-100\<close> and the maximum over the
  samples.\<close>

lemma stored_min_max:
  assumes "nonneg_costs ss"
    and "map_of (ws_queries (fold record_execution ss (init_stats wid t0 t1))) k = Some e"
  shows "q_min_improvement_pct e = Min (sample_pct ` set (samples_of k ss))
       \<and> q_max_improvement_pct e = max (- 100) (Max (sample_pct ` set (samples_of k ss)))"
proof -
  let ?fs = "samples_of k ss"
  have ea: "entry_after None ?fs = Some e"
    using assms(2) by (simp add: lookup_fold_record init_stats_def)
  then have ne: "?fs \<noteq> []" using entry_after_None [of ?fs] by auto
  have bound: "\<forall>s \<in> set ?fs. sample_pct s \<le> 100"
    using assms(1) sample_pct_le_100
    by (auto simp: nonneg_costs_def samples_of_def list_all_iff)
  obtain s0 where s0: "s0 \<in> set ?fs"
    using ne by (cases ?fs) auto
  have "Min (sample_pct ` set ?fs) \<le> sample_pct s0"
    using s0 by (intro Min_le) auto
  also have "\<dots> \<le> 100" using bound s0 by blast
  finally have "Min (sample_pct ` set ?fs) \<le> 100" .
  with entry_after_min_max [OF ne ea] show ?thesis by simp
qed

lemma fold_sizes: "fold (\<lambda>idx total. total + ix_size_bytes idx) xs (a::int) = a + sum_list (map ix_size_bytes xs)"
  by (induction xs arbitrary: a) simp_all

lemma apply_sample_index_bytes:
  "q_total_index_size_bytes (apply_sample s e) = q_total_index_size_bytes e + sample_index_bytes s"
  by (simp add: apply_sample_def update_entry_def Let_def add_index_sizes_def sample_index_bytes_def
        fold_sizes split: option.splits)

lemma entry_after_index_bytes:
  "entry_after eo ss = Some e \<Longrightarrow> ss \<noteq> [] \<Longrightarrow>
     q_total_index_size_bytes e = prior_index_bytes eo + sum_list (map sample_index_bytes ss)"
proof (induction ss arbitrary: eo e)
  case Nil
  then show ?case by simp
next
  case (Cons s ss)
  show ?case
  proof (cases "ss = []")
    case True
    with Cons.prems show ?thesis
      by (auto simp: apply_sample_index_bytes prior_index_bytes_def new_entry_def split: option.splits)
  next
    case False
    from Cons.IH [OF _ False] Cons.prems(1) show ?thesis
      by (auto simp: apply_sample_index_bytes prior_index_bytes_def new_entry_def split: option.splits)
  qed
qed

lemma record_execution_last_save [simp]:
  "ws_last_save (record_execution s stats) = ws_last_save stats"
  by (simp add: record_execution_def Let_def)

lemma save_stats_last_save:
  "ws_last_save (rn_stats (snd (save_stats io now r)))
     = (if io = Written then now else ws_last_save (rn_stats r))"
  by (simp add: save_stats_def split: io_outcome.splits)

lemma step_last_save:
  "ws_last_save (rn_stats (step ev r)) = last (ws_last_save (rn_stats r) # written_times [ev])"
proof (cases ev)
  case (PeriodicSave hot io now)
  then show ?thesis by (cases io) (simp_all add: save_stats_last_save)
next
  case (FinalSave io now)
  then show ?thesis by (cases io) (simp_all add: save_stats_last_save)
qed simp_all

lemma written_times_Cons:
  "written_times (ev # es) = written_times [ev] @ written_times es"
proof (cases ev)
  case (PeriodicSave hot io now)
  then show ?thesis by (cases io) simp_all
next
  case (FinalSave io now)
  then show ?thesis by (cases io) simp_all
qed simp_all

lemma run_last_save:
  "ws_last_save (rn_stats (fold step es r)) = last (ws_last_save (rn_stats r) # written_times es)"
proof (induction es arbitrary: r)
  case Nil
  show ?case by simp
next
  case (Cons ev es)
  have "ws_last_save (rn_stats (fold step (ev # es) r))
          = last (last (ws_last_save (rn_stats r) # written_times [ev]) # written_times es)"
    using Cons.IH [of "step ev r"] by (simp add: step_last_save)
  also have "\<dots> = last (ws_last_save (rn_stats r) # written_times [ev] @ written_times es)"
    by (cases "written_times es = []") (simp_all add: last_append)
  finally show ?case
    by (simp add: written_times_Cons [of ev es])
qed

section \<open>Claims on the aggregator\<close>

text \<open>
  C1. Start from the fresh statistics of a new runner and record any sequence of samples
  with non-negative costs. Every entry \<open>e\<close> then stored under a key \<open>k\<close> has
  \<open>avg_improvement_pct\<close> equal to \<open>(B - O) / B * 100\<close> when \<open>B > 0\<close> and to \<open>0\<close> when
  \<open>B = 0\<close>, where \<open>B\<close> and \<open>O\<close> are the sums of the baseline and of the optimized costs
  of all samples recorded under \<open>k\<close>: a ratio of the cumulative sums. The value is at
  most 100.
\<close>

theorem avg_improvement_pct_is_ratio_of_sums:
  assumes "nonneg_costs ss"
    and "map_of (ws_queries (fold record_execution ss (init_stats wid t0 t1))) k = Some e"
  shows "q_total_baseline_cost e = sum_baseline (samples_of k ss)
       \<and> q_total_optimized_cost e = sum_optimized (samples_of k ss)
       \<and> (sum_baseline (samples_of k ss) > 0 \<longrightarrow>
            q_avg_improvement_pct e =
              (sum_baseline (samples_of k ss) - sum_optimized (samples_of k ss))
                / sum_baseline (samples_of k ss) * 100)
       \<and> (sum_baseline (samples_of k ss) = 0 \<longrightarrow> q_avg_improvement_pct e = 0)
       \<and> (sum_baseline (samples_of k ss) > 0 \<or> sum_baseline (samples_of k ss) = 0)
       \<and> q_avg_improvement_pct e \<le> 100"
proof -
  let ?fs = "samples_of k ss"
  have ea: "entry_after None ?fs = Some e"
    using assms(2) by (simp add: lookup_fold_record init_stats_def)
  then have ne: "?fs \<noteq> []" using entry_after_None [of ?fs] by auto
  have nn: "nonneg_costs ?fs"
    using assms(1) by (simp add: nonneg_costs_def samples_of_def list_all_iff)
  note tot = entry_after_totals [OF ne ea]
  note avg = entry_after_avg [OF ne ea]
  note pos = sum_nonneg_costs [OF nn]
  have le: "q_avg_improvement_pct e \<le> 100"
  proof (cases "sum_baseline ?fs > 0")
    case True
    then show ?thesis using avg tot pos ratio_le_100 [of "sum_baseline ?fs" "sum_optimized ?fs"]
      by simp
  next
    case False
    then show ?thesis using avg tot by simp
  qed
  show ?thesis using tot avg pos le by auto
qed

theorem avg_improvement_pct_witness:
  "nonneg_costs [demo_sample 600 300 None, demo_sample 400 100 None] \<and>
   (\<exists>e. map_of (ws_queries (fold record_execution
                  [demo_sample 600 300 None, demo_sample 400 100 None]
                  (init_stats 1 [] []))) ''SELECT 1'' = Some e
        \<and> q_total_baseline_cost e = 1000 \<and> q_total_optimized_cost e = 400
        \<and> q_avg_improvement_pct e = 60 \<and> q_avg_improvement_pct e \<le> 100)"
proof -
  let ?ss = "[demo_sample 600 300 None, demo_sample 400 100 None]"
  have nn: "nonneg_costs ?ss"
    by (simp add: nonneg_costs_def demo_sample_def)
  obtain e where e: "map_of (ws_queries (fold record_execution ?ss (init_stats 1 [] [])))
                       ''SELECT 1'' = Some e"
    unfolding lookup_fold_record
    by (simp add: init_stats_def samples_of_def demo_sample_def query_key_def)
  have sums: "sum_baseline (samples_of ''SELECT 1'' ?ss) = 1000"
             "sum_optimized (samples_of ''SELECT 1'' ?ss) = 400"
    by (simp_all add: sum_baseline_def sum_optimized_def samples_of_def demo_sample_def
          query_key_def)
  from avg_improvement_pct_is_ratio_of_sums [OF nn e] nn e show ?thesis
    by (simp add: sums)
qed

text \<open>
  C7. The minimum is the minimum over the samples, but the maximum is not: the entry
  starts with \<open>max_improvement_pct = -100\<close>, and a sample whose optimized cost is more
  than twice its baseline cost has an improvement below \<open>-100\<close>. After the single sample
  with baseline cost 1 and optimized cost 3, whose improvement is \<open>-200\<close>, the stored
  maximum is \<open>-100\<close> (the stored minimum is \<open>-200\<close>).
\<close>

theorem max_improvement_pct_misses_sample_below_minus_100:
  "sample_pct (demo_sample 1 3 None) = - 200 \<and>
   map_option q_max_improvement_pct
     (map_of (ws_queries (record_execution (demo_sample 1 3 None) (init_stats 1 [] [])))
        ''SELECT 1'') = Some (- 100) \<and>
   map_option q_min_improvement_pct
     (map_of (ws_queries (record_execution (demo_sample 1 3 None) (init_stats 1 [] [])))
        ''SELECT 1'') = Some (- 200)"
  by (simp add: lookup_record_execution apply_sample_min_max sample_pct_def improvement_pct_def
        demo_sample_def init_stats_def query_key_def new_entry_def)

text \<open>
  C8. Record any samples on any statistics. The entry then stored under a key \<open>k\<close> that
  received at least one of them has \<open>total_index_size_bytes\<close> equal to what the entry
  held before (0 for a new entry) plus, for every sample recorded under \<open>k\<close>, the sum of
  the sizes of the indexes in \<open>used_by_query\<close> at that sample: nothing is deduplicated. So
  when each of the \<open>n\<close> samples used the same single index, the total grows by \<open>n\<close>
  times its size.
\<close>

theorem total_index_size_bytes_additive:
  assumes "map_of (ws_queries (fold record_execution ss stats)) k = Some e"
    and "samples_of k ss \<noteq> []"
  shows "q_total_index_size_bytes e =
           prior_index_bytes (map_of (ws_queries stats) k)
             + sum_list (map sample_index_bytes (samples_of k ss))
       \<and> ((\<forall>s \<in> set (samples_of k ss).
              \<exists>ii. cs_index_info s = Some ii \<and> used_by_query ii = [idx]) \<longrightarrow>
            q_total_index_size_bytes e =
              prior_index_bytes (map_of (ws_queries stats) k)
                + int (length (samples_of k ss)) * ix_size_bytes idx)"
proof -
  let ?fs = "samples_of k ss"
  have ea: "entry_after (map_of (ws_queries stats) k) ?fs = Some e"
    using assms(1) by (simp add: lookup_fold_record)
  note tot = entry_after_index_bytes [OF ea assms(2)]
  have same: "sum_list (map sample_index_bytes fs) = int (length fs) * ix_size_bytes idx"
    if "\<forall>s \<in> set fs. \<exists>ii. cs_index_info s = Some ii \<and> used_by_query ii = [idx]" for fs
    using that by (induction fs) (auto simp: sample_index_bytes_def algebra_simps)
  show ?thesis using tot same [of ?fs] by simp
qed

theorem total_index_size_bytes_witness:
  "\<exists>e. map_of (ws_queries (fold record_execution
                 (replicate 3 (demo_sample 600 300
                     (Some \<lparr>all_created = [demo_index], used_by_query = [demo_index]\<rparr>)))
                 (init_stats 1 [] []))) ''SELECT 1'' = Some e
      \<and> q_total_index_size_bytes e = 3 * 8192"
proof -
  let ?s = "demo_sample 600 300 (Some \<lparr>all_created = [demo_index], used_by_query = [demo_index]\<rparr>)"
  let ?ss = "replicate 3 ?s"
  have fs: "samples_of ''SELECT 1'' ?ss = [?s, ?s, ?s]"
    by (simp add: samples_of_def demo_sample_def query_key_def numeral_3_eq_3)
  obtain e where e: "map_of (ws_queries (fold record_execution ?ss (init_stats 1 [] [])))
                       ''SELECT 1'' = Some e"
    unfolding lookup_fold_record fs by simp
  have ne: "samples_of ''SELECT 1'' ?ss \<noteq> []" by (simp add: fs)
  have all: "\<forall>s \<in> set (samples_of ''SELECT 1'' ?ss).
               \<exists>ii. cs_index_info s = Some ii \<and> used_by_query ii = [demo_index]"
    unfolding fs by (simp add: demo_sample_def)
  from total_index_size_bytes_additive [OF e ne, of demo_index] all
  have "q_total_index_size_bytes e =
          prior_index_bytes (map_of (ws_queries (init_stats 1 [] [])) ''SELECT 1'')
            + int (length (samples_of ''SELECT 1'' ?ss)) * ix_size_bytes demo_index"
    by blast
  then have "q_total_index_size_bytes e = 3 * 8192"
    unfolding fs by (simp add: init_stats_def prior_index_bytes_def demo_index_def)
  with e show ?thesis by blast
qed

text \<open>
  C10. Take a new runner, constructed with \<open>last_save = t0\<close>, after any events, and let a
  save succeed at time \<open>now\<close>, be it the periodic save or the final one. The snapshot it
  writes holds as \<open>last_save\<close> the time of the last earlier save that succeeded, and \<open>t0\<close>
  when there was none: never \<open>now\<close> itself, which is stored in memory only after the file
  has been written.
\<close>

theorem saved_last_save_is_previous_save:
  "(\<exists>snap. rn_file (step (PeriodicSave hot Written now)
                     (fold step es (init_runner wid existing t_run t0 active0 file0)))
             = Snapshot snap
          \<and> ws_last_save snap = last (t0 # written_times es))
   \<and> (\<exists>snap. rn_file (step (FinalSave Written now)
                     (fold step es (init_runner wid existing t_run t0 active0 file0)))
             = Snapshot snap
          \<and> ws_last_save snap = last (t0 # written_times es))
   \<and> ws_last_save (rn_stats (step (PeriodicSave hot Written now)
                     (fold step es (init_runner wid existing t_run t0 active0 file0)))) = now
   \<and> ws_last_save (rn_stats (step (FinalSave Written now)
                     (fold step es (init_runner wid existing t_run t0 active0 file0)))) = now"
  using run_last_save [of es "init_runner wid existing t_run t0 active0 file0"]
  by (simp add: save_stats_def init_runner_def init_stats_def)

theorem saved_last_save_witness:
  "(\<exists>snap. rn_file (step (FinalSave Written ''2024-01-01T00:00:31'')
                     (fold step demo_events demo_runner)) = Snapshot snap
          \<and> ws_last_save snap = ''2024-01-01T00:00:10'')
   \<and> (\<exists>snap. rn_file (step (PeriodicSave [''o_custkey''] Written ''2024-01-01T00:00:10'')
                     (fold step (take 1 demo_events) demo_runner)) = Snapshot snap
          \<and> ws_last_save snap = ''2024-01-01T00:00:01'')"
proof -
  have st: "written_times demo_events = [''2024-01-01T00:00:10'']"
    "written_times (take 1 demo_events) = []"
    by (simp_all add: demo_events_def)
  have f1: "\<exists>snap. rn_file (step (FinalSave Written ''2024-01-01T00:00:31'')
                     (fold step demo_events demo_runner)) = Snapshot snap
          \<and> ws_last_save snap = ''2024-01-01T00:00:10''"
    using saved_last_save_is_previous_save [of "[]" "''2024-01-01T00:00:31''" demo_events 1 "{}"
            "''2024-01-01T00:00:00''" "''2024-01-01T00:00:01''" "[]" NoFile]
    unfolding demo_runner_def st by auto
  have f2: "\<exists>snap. rn_file (step (PeriodicSave [''o_custkey''] Written ''2024-01-01T00:00:10'')
                     (fold step (take 1 demo_events) demo_runner)) = Snapshot snap
          \<and> ws_last_save snap = ''2024-01-01T00:00:01''"
    using saved_last_save_is_previous_save [of "[''o_custkey'']" "''2024-01-01T00:00:10''"
            "take 1 demo_events" 1 "{}"
            "''2024-01-01T00:00:00''" "''2024-01-01T00:00:01''" "[]" NoFile]
    unfolding demo_runner_def st by auto
  from f1 f2 show ?thesis by blast
qed

section \<open>Lemmas on the cost sampler\<close>

lemma length_combinations: "length (combinations xs k) = length xs choose k"
  by (induction xs k rule: combinations.induct) simp_all

lemma combinations_1: "combinations xs (Suc 0) = map (\<lambda>x. [x]) xs"
  by (induction xs) simp_all

lemma combinations_too_long:
  assumes "length xs < k"
  shows "combinations xs k = []"
proof -
  have "length (combinations xs k) = 0"
    using assms by (simp add: length_combinations)
  then show ?thesis by simp
qed

lemma all_combinations_eq:
  "all_combinations cols = combinations cols 1 @ combinations cols 2 @ combinations cols 3"
  by (simp add: all_combinations_def combinations_1 combinations_too_long)

lemma length_all_combinations:
  "length (all_combinations cols) =
     length cols + (length cols choose 2) + (length cols choose 3)"
  by (simp add: all_combinations_eq length_combinations)

lemma create_combos_shape:
  "\<exists>new. create_combos orc tbl combos (active, info, cnt)
            = (active @ map h_oid new, info @ new, cnt + length new)
        \<and> cnt + length new \<le> max max_indexes cnt"
proof (induction combos arbitrary: active info cnt)
  case Nil
  show ?case by simp
next
  case (Cons combo rest)
  show ?case
  proof (cases "cnt \<ge> max_indexes")
    case True
    then show ?thesis by simp
  next
    case False
    show ?thesis
    proof (cases "create_resp orc active tbl combo")
      case None
      with False Cons.IH [of active info cnt] show ?thesis by simp
    next
      case (Some p)
      obtain oid nm where p: "p = (oid, nm)" by (cases p)
      let ?h = "\<lparr>h_oid = oid, h_index_name = nm,
                 h_index_size = (case size_resp orc oid of Some sz \<Rightarrow> sz | None \<Rightarrow> 0),
                 h_combo = combo, h_table = tbl\<rparr>"
      from Cons.IH [of "active @ [oid]" "info @ [?h]" "cnt + 1"]
      obtain new where new:
        "create_combos orc tbl rest (active @ [oid], info @ [?h], cnt + 1)
           = ((active @ [oid]) @ map h_oid new, (info @ [?h]) @ new, cnt + 1 + length new)"
        "cnt + 1 + length new \<le> max max_indexes (cnt + 1)"
        by blast
      have "create_combos orc tbl (combo # rest) (active, info, cnt)
              = (active @ map h_oid (?h # new), info @ (?h # new), cnt + length (?h # new))"
        using False Some p new(1) by simp
      moreover have "cnt + length (?h # new) \<le> max max_indexes cnt"
        using False new(2) by simp
      ultimately show ?thesis by blast
    qed
  qed
qed

lemma create_tables_shape:
  "\<exists>new. create_tables orc tables combos (active, info, cnt)
            = (active @ map h_oid new, info @ new, cnt + length new)
        \<and> cnt + length new \<le> max max_indexes cnt"
proof (induction tables arbitrary: active info cnt)
  case Nil
  show ?case by simp
next
  case (Cons tbl tables)
  show ?case
  proof (cases "cnt \<ge> max_indexes")
    case True
    then show ?thesis by simp
  next
    case False
    from create_combos_shape [of orc tbl combos active info cnt]
    obtain new1 where n1:
      "create_combos orc tbl combos (active, info, cnt)
         = (active @ map h_oid new1, info @ new1, cnt + length new1)"
      "cnt + length new1 \<le> max max_indexes cnt"
      by blast
    from Cons.IH [of "active @ map h_oid new1" "info @ new1" "cnt + length new1"]
    obtain new2 where n2:
      "create_tables orc tables combos (active @ map h_oid new1, info @ new1, cnt + length new1)
         = ((active @ map h_oid new1) @ map h_oid new2, (info @ new1) @ new2,
            cnt + length new1 + length new2)"
      "cnt + length new1 + length new2 \<le> max max_indexes (cnt + length new1)"
      by blast
    have "create_tables orc (tbl # tables) combos (active, info, cnt)
            = (active @ map h_oid (new1 @ new2), info @ (new1 @ new2),
               cnt + length (new1 @ new2))"
      using False n1(1) n2(1) by simp
    moreover have "cnt + length (new1 @ new2) \<le> max max_indexes cnt"
      using False n1(2) n2(2) by simp
    ultimately show ?thesis by blast
  qed
qed

lemma create_combos_all:
  assumes ok: "\<And>a t c. create_resp orc a t c \<noteq> None"
  shows "cnt = length info \<Longrightarrow> cnt \<le> max_indexes \<Longrightarrow>
     map hyp_key (fst (snd (create_combos orc tbl combos (active, info, cnt))))
       = take max_indexes (map hyp_key info @ map (Pair tbl) combos)"
proof (induction combos arbitrary: active info cnt)
  case Nil
  then show ?case by simp
next
  case (Cons combo rest)
  show ?case
  proof (cases "cnt \<ge> max_indexes")
    case True
    with Cons.prems show ?thesis by simp
  next
    case False
    obtain oid nm where p: "create_resp orc active tbl combo = Some (oid, nm)"
      using ok [of active tbl combo] by (cases "create_resp orc active tbl combo") auto
    let ?h = "\<lparr>h_oid = oid, h_index_name = nm,
               h_index_size = (case size_resp orc oid of Some sz \<Rightarrow> sz | None \<Rightarrow> 0),
               h_combo = combo, h_table = tbl\<rparr>"
    from Cons.IH [of "cnt + 1" "info @ [?h]" "active @ [oid]"] Cons.prems False
    have "map hyp_key (fst (snd (create_combos orc tbl rest
                                   (active @ [oid], info @ [?h], cnt + 1))))
            = take max_indexes (map hyp_key (info @ [?h]) @ map (Pair tbl) rest)"
      by simp
    moreover have "hyp_key ?h = (tbl, combo)"
      by (simp add: hyp_key_def)
    ultimately show ?thesis using False p by simp
  qed
qed

lemma take_take_append:
  "take n (take n xs @ ys) = take n (xs @ ys)"
  by (cases "n \<le> length xs") simp_all

lemma create_tables_all:
  assumes ok: "\<And>a t c. create_resp orc a t c \<noteq> None"
  shows "cnt = length info \<Longrightarrow> cnt \<le> max_indexes \<Longrightarrow>
     map hyp_key (fst (snd (create_tables orc tables combos (active, info, cnt))))
       = take max_indexes (map hyp_key info @ List.product tables combos)"
proof (induction tables arbitrary: active info cnt)
  case Nil
  then show ?case by simp
next
  case (Cons tbl tables)
  show ?case
  proof (cases "cnt \<ge> max_indexes")
    case True
    with Cons.prems show ?thesis by simp
  next
    case False
    from create_combos_shape [of orc tbl combos active info cnt]
    obtain new1 where n1:
      "create_combos orc tbl combos (active, info, cnt)
         = (active @ map h_oid new1, info @ new1, cnt + length new1)"
      "cnt + length new1 \<le> max max_indexes cnt"
      by blast
    have k1: "map hyp_key (info @ new1)
                = take max_indexes (map hyp_key info @ map (Pair tbl) combos)"
      using create_combos_all [OF ok Cons.prems, of tbl combos active] n1(1) by simp
    have step: "create_tables orc (tbl # tables) combos (active, info, cnt)
                  = create_tables orc tables combos
                      (active @ map h_oid new1, info @ new1, cnt + length new1)"
      using False n1(1) by simp
    have "map hyp_key (fst (snd (create_tables orc tables combos
             (active @ map h_oid new1, info @ new1, cnt + length new1))))
            = take max_indexes (map hyp_key (info @ new1) @ List.product tables combos)"
      using Cons.IH [of "cnt + length new1" "info @ new1" "active @ map h_oid new1"]
            Cons.prems n1(2) False
      by simp
    also have "\<dots> = take max_indexes
                 (take max_indexes (map hyp_key info @ map (Pair tbl) combos)
                    @ List.product tables combos)"
      by (simp only: k1)
    also have "\<dots> = take max_indexes
                 ((map hyp_key info @ map (Pair tbl) combos) @ List.product tables combos)"
      by (rule take_take_append)
    also have "\<dots> = take max_indexes (map hyp_key info @ List.product (tbl # tables) combos)"
      by simp
    finally show ?thesis by (simp only: step)
  qed
qed

lemma product_Nil_right: "List.product xs [] = []"
  by (induction xs) simp_all

lemma set_drop_all:
  "set (drop_all orc info active)
     = set active - {h_oid h | h. h \<in> set info \<and> drop_resp orc (h_oid h)}"
  unfolding drop_all_def
proof (induction info arbitrary: active)
  case Nil
  show ?case by simp
next
  case (Cons h info)
  show ?case by (simp add: Cons.IH) blast
qed

lemma created_by_call_shape:
  "create_tables orc tables combos (active, [], 0)
     = (active @ map h_oid (fst (snd (create_tables orc tables combos (active, [], 0)))),
        fst (snd (create_tables orc tables combos (active, [], 0))),
        length (fst (snd (create_tables orc tables combos (active, [], 0)))))
   \<and> length (fst (snd (create_tables orc tables combos (active, [], 0)))) \<le> max_indexes"
  using create_tables_shape [of orc tables combos active "[]" 0] by auto

lemma active_after_call:
  "rn_active (snd (get_optimized_cost orc query tables columns r))
     = drop_all orc (created_by_call orc tables columns r)
         (rn_active r @ map h_oid (created_by_call orc tables columns r))"
proof (cases "\<not> cursor_resp orc \<or> tables = [] \<or> columns = [] \<or> new_columns_of r columns = []")
  case True
  then show ?thesis
    by (auto simp: get_optimized_cost_def created_by_call_def drop_all_def)
next
  case False
  let ?c = "create_tables orc tables (all_combinations (new_columns_of r columns))
              (rn_active r, [], 0)"
  have "fst ?c = rn_active r @ map h_oid (fst (snd ?c))"
    using created_by_call_shape [of orc tables "all_combinations (new_columns_of r columns)"
            "rn_active r"]
    by (metis fst_conv)
  with False show ?thesis
    by (simp add: get_optimized_cost_def created_by_call_def Let_def split: option.splits)
qed

lemma subsequence_of_tail:
  "subsequence_of (x # xs) ys \<Longrightarrow> subsequence_of xs ys"
proof (induction ys arbitrary: x xs)
  case Nil
  then show ?case by simp
next
  case (Cons y ys)
  show ?case
  proof (cases xs)
    case Nil
    then show ?thesis by simp
  next
    case (Cons x' xs')
    show ?thesis
    proof (cases "x = y")
      case True
      with Cons.prems have "subsequence_of (x' # xs') ys" by (simp add: Cons)
      then show ?thesis
        using Cons.IH [of x' xs'] by (simp add: Cons)
    next
      case False
      with Cons.prems have "subsequence_of (x # xs) ys" by simp
      from Cons.IH [OF this] show ?thesis
        using Cons.IH [of x' xs'] by (auto simp: Cons)
    qed
  qed
qed

lemma subsequence_of_skip:
  "subsequence_of xs ys \<Longrightarrow> subsequence_of xs (y # ys)"
  by (cases xs) (auto dest: subsequence_of_tail)

lemma create_pairs_capped:
  "cnt \<ge> max_indexes \<Longrightarrow> create_pairs orc ps (active, info, cnt) = (active, info, cnt)"
  by (cases ps) auto

lemma create_pairs_shape:
  "\<exists>new. create_pairs orc ps (active, info, cnt)
            = (active @ map h_oid new, info @ new, cnt + length new)
        \<and> cnt + length new \<le> max max_indexes cnt
        \<and> subsequence_of (map hyp_key new) ps"
proof (induction ps arbitrary: active info cnt)
  case Nil
  show ?case by simp
next
  case (Cons p rest)
  obtain tbl combo where p: "p = (tbl, combo)" by (cases p)
  show ?case
  proof (cases "cnt \<ge> max_indexes")
    case True
    then show ?thesis by (simp add: p)
  next
    case False
    show ?thesis
    proof (cases "create_resp orc active tbl combo")
      case None
      from Cons.IH [of active info cnt]
      obtain new where new:
        "create_pairs orc rest (active, info, cnt)
           = (active @ map h_oid new, info @ new, cnt + length new)"
        "cnt + length new \<le> max max_indexes cnt"
        "subsequence_of (map hyp_key new) rest"
        by blast
      have "create_pairs orc (p # rest) (active, info, cnt)
              = (active @ map h_oid new, info @ new, cnt + length new)"
        using False None new(1) by (simp add: p)
      moreover have "subsequence_of (map hyp_key new) (p # rest)"
        using new(3) by (rule subsequence_of_skip)
      ultimately show ?thesis using new(2) by blast
    next
      case (Some q)
      obtain oid nm where q: "q = (oid, nm)" by (cases q)
      let ?h = "\<lparr>h_oid = oid, h_index_name = nm,
                 h_index_size = (case size_resp orc oid of Some sz \<Rightarrow> sz | None \<Rightarrow> 0),
                 h_combo = combo, h_table = tbl\<rparr>"
      from Cons.IH [of "active @ [oid]" "info @ [?h]" "cnt + 1"]
      obtain new where new:
        "create_pairs orc rest (active @ [oid], info @ [?h], cnt + 1)
           = ((active @ [oid]) @ map h_oid new, (info @ [?h]) @ new, cnt + 1 + length new)"
        "cnt + 1 + length new \<le> max max_indexes (cnt + 1)"
        "subsequence_of (map hyp_key new) rest"
        by blast
      have "create_pairs orc (p # rest) (active, info, cnt)
              = (active @ map h_oid (?h # new), info @ (?h # new), cnt + length (?h # new))"
        using False Some q new(1) by (simp add: p)
      moreover have "cnt + length (?h # new) \<le> max max_indexes cnt"
        using False new(2) by simp
      moreover have "subsequence_of (map hyp_key (?h # new)) (p # rest)"
        using new(3) by (simp add: p hyp_key_def)
      ultimately show ?thesis by blast
    qed
  qed
qed

lemma create_pairs_append:
  "create_pairs orc (ps @ qs) st = create_pairs orc qs (create_pairs orc ps st)"
proof (induction ps arbitrary: st)
  case Nil
  show ?case by simp
next
  case (Cons p ps)
  obtain tbl combo where p: "p = (tbl, combo)" by (cases p)
  obtain active info cnt where st: "st = (active, info, cnt)" by (cases st)
  show ?case
    by (simp add: p st Cons.IH create_pairs_capped split: option.splits)
qed

lemma create_combos_flat:
  "create_combos orc tbl combos st = create_pairs orc (map (Pair tbl) combos) st"
proof (induction combos arbitrary: st)
  case Nil
  show ?case by simp
next
  case (Cons combo rest)
  obtain active info cnt where st: "st = (active, info, cnt)" by (cases st)
  show ?case
    by (simp add: st Cons.IH split: option.splits)
qed

lemma create_tables_flat:
  "create_tables orc tables combos st = create_pairs orc (List.product tables combos) st"
proof (induction tables arbitrary: st)
  case Nil
  show ?case by simp
next
  case (Cons tbl tables)
  obtain active info cnt where st: "st = (active, info, cnt)" by (cases st)
  show ?case
  proof (cases "cnt \<ge> max_indexes")
    case True
    then show ?thesis by (simp add: st create_pairs_capped)
  next
    case False
    then show ?thesis
      by (simp add: st Cons.IH create_combos_flat create_pairs_append)
  qed
qed

lemma create_pairs_reliable:
  assumes rel: "\<And>a. create_resp orc a t c \<noteq> None"
  shows "create_pairs orc ps (active, info, cnt) = (active', info', cnt') \<Longrightarrow>
         cnt' < max_indexes \<Longrightarrow> (t, c) \<in> set ps \<Longrightarrow> (t, c) \<in> hyp_key ` set info'"
proof (induction ps arbitrary: active info cnt)
  case Nil
  then show ?case by simp
next
  case (Cons p rest)
  obtain tbl combo where p: "p = (tbl, combo)" by (cases p)
  have mono: "cnt \<le> cnt'"
    using create_pairs_shape [of orc "p # rest" active info cnt] Cons.prems(1) by auto
  then have notcap: "\<not> cnt \<ge> max_indexes" using Cons.prems(2) by simp
  show ?case
  proof (cases "create_resp orc active tbl combo")
    case None
    then have "(t, c) \<noteq> p" using rel [of active] by (auto simp: p)
    then have "(t, c) \<in> set rest" using Cons.prems(3) by auto
    moreover have "create_pairs orc rest (active, info, cnt) = (active', info', cnt')"
      using Cons.prems(1) notcap None by (simp add: p)
    ultimately show ?thesis using Cons.IH Cons.prems(2) by blast
  next
    case (Some q)
    obtain oid nm where q: "q = (oid, nm)" by (cases q)
    let ?h = "\<lparr>h_oid = oid, h_index_name = nm,
               h_index_size = (case size_resp orc oid of Some sz \<Rightarrow> sz | None \<Rightarrow> 0),
               h_combo = combo, h_table = tbl\<rparr>"
    have step: "create_pairs orc rest (active @ [oid], info @ [?h], cnt + 1)
                  = (active', info', cnt')"
      using Cons.prems(1) notcap Some q by (simp add: p)
    show ?thesis
    proof (cases "(t, c) = p")
      case True
      from create_pairs_shape [of orc rest "active @ [oid]" "info @ [?h]" "cnt + 1"] step
      obtain new where "info' = (info @ [?h]) @ new" by auto
      then have "?h \<in> set info'" by simp
      moreover have "hyp_key ?h = (t, c)" using True by (simp add: hyp_key_def p)
      ultimately show ?thesis by (metis image_eqI)
    next
      case False
      then have "(t, c) \<in> set rest" using Cons.prems(3) by auto
      with Cons.IH [OF step Cons.prems(2)] show ?thesis .
    qed
  qed
qed

lemma created_by_call_flat:
  "created_by_call orc tables columns r
     = (if cursor_resp orc
        then fst (snd (create_pairs orc
               (List.product tables (all_combinations (new_columns_of r columns)))
               (rn_active r, [], 0)))
        else [])"
proof (cases "tables = [] \<or> columns = [] \<or> new_columns_of r columns = []")
  case True
  then have "List.product tables (all_combinations (new_columns_of r columns)) = []"
    by (auto simp: new_columns_of_def all_combinations_def product_Nil_right)
  with True show ?thesis by (auto simp: created_by_call_def)
next
  case False
  then show ?thesis by (simp add: created_by_call_def create_tables_flat)
qed

lemma created_by_call_subsequence:
  "subsequence_of (map hyp_key (created_by_call orc tables columns r))
     (List.product tables (all_combinations (new_columns_of r columns)))"
proof (cases "cursor_resp orc")
  case False
  then show ?thesis by (simp add: created_by_call_flat)
next
  case True
  from create_pairs_shape [of orc
         "List.product tables (all_combinations (new_columns_of r columns))" "rn_active r" "[]" 0]
  obtain new where
    "create_pairs orc (List.product tables (all_combinations (new_columns_of r columns)))
       (rn_active r, [], 0) = (rn_active r @ map h_oid new, [] @ new, 0 + length new)"
    "subsequence_of (map hyp_key new)
       (List.product tables (all_combinations (new_columns_of r columns)))"
    by blast
  with True show ?thesis by (simp add: created_by_call_flat)
qed

lemma created_by_call_reliable:
  assumes "cursor_resp orc"
    and "length (created_by_call orc tables columns r) < 50"
    and "(t, c) \<in> set (List.product tables (all_combinations (new_columns_of r columns)))"
    and "\<forall>a. create_resp orc a t c \<noteq> None"
  shows "(t, c) \<in> set (map hyp_key (created_by_call orc tables columns r))"
proof -
  let ?ps = "List.product tables (all_combinations (new_columns_of r columns))"
  from create_pairs_shape [of orc ?ps "rn_active r" "[]" 0]
  obtain new where new:
    "create_pairs orc ?ps (rn_active r, [], 0)
       = (rn_active r @ map h_oid new, [] @ new, 0 + length new)"
    by blast
  have c: "created_by_call orc tables columns r = new"
    using assms(1) new by (simp add: created_by_call_flat)
  have "(t, c) \<in> hyp_key ` set ([] @ new)"
  proof (rule create_pairs_reliable [OF _ new])
    show "create_resp orc a t c \<noteq> None" for a using assms(4) by simp
    show "0 + length new < max_indexes" using assms(2) c by (simp add: max_indexes_def)
    show "(t, c) \<in> set ?ps" by (rule assms(3))
  qed
  then show ?thesis by (simp add: c)
qed

text \<open>\<^verbatim>\<open>self.index_info['all_created']\<close> after a call that reached the loops lists the
  indexes of \<open>created_by_call\<close>; and \<^verbatim>\<open>run_phase\<close> aggregates the sample with
  \<^verbatim>\<open>self.index_info\<close> as the call left it.\<close>

lemma index_info_after_call:
  assumes "cursor_resp orc" "tables \<noteq> []" "columns \<noteq> []" "new_columns_of r columns \<noteq> []"
  shows "map_option all_created (rn_index_info (snd (get_optimized_cost orc query tables columns r)))
           = Some (map to_used (created_by_call orc tables columns r))"
  using assms
  by (simp add: get_optimized_cost_def created_by_call_def Let_def split: option.splits)

lemma run_query_records:
  assumes "tables \<noteq> []" "columns \<noteq> []"
    and "get_baseline_cost orc (rn_active r) query = Some b"
    and "get_optimized_cost orc query tables columns r = (Some c, r1)"
  shows "rn_stats (run_query orc query tables columns r)
           = record_execution
               \<lparr>cs_query = query, cs_tables = tables, cs_columns = columns,
                cs_baseline_cost = b, cs_optimized_cost = c,
                cs_index_info = rn_index_info r1\<rparr> (rn_stats r)"
proof -
  have "rn_stats r1 = rn_stats r"
    using assms(4)
    by (auto simp: get_optimized_cost_def Let_def split: if_splits option.splits)
  with assms show ?thesis by (simp add: run_query_def)
qed

section \<open>Claims on the cost sampler\<close>

text \<open>
  C3, in the form that holds of the code. \<^verbatim>\<open>get_optimized_cost\<close> sends one drop
  request for every hypothetical index it created, on every path, but ignores a request
  that raises. So after the call:
  every created index whose drop request succeeds is no longer active; the session holds
  nothing beyond what it held before and the created indexes whose drop request raised;
  and when no drop request raises, no index created by the call remains active.
\<close>

theorem cleanup_retracts_every_dropped_index:
  "(\<forall>h \<in> set (created_by_call orc tables columns r).
      drop_resp orc (h_oid h) \<longrightarrow>
        h_oid h \<notin> set (rn_active (snd (get_optimized_cost orc query tables columns r))))
   \<and> set (rn_active (snd (get_optimized_cost orc query tables columns r)))
        \<subseteq> set (rn_active r)
            \<union> {h_oid h | h. h \<in> set (created_by_call orc tables columns r)
                            \<and> \<not> drop_resp orc (h_oid h)}
   \<and> ((\<forall>h \<in> set (created_by_call orc tables columns r). drop_resp orc (h_oid h)) \<longrightarrow>
        set (map h_oid (created_by_call orc tables columns r))
          \<inter> set (rn_active (snd (get_optimized_cost orc query tables columns r))) = {})"
  unfolding active_after_call set_drop_all by auto

text \<open>The claim as stated fails when a drop request raises: the call returns the cost
  400 and the hypothetical index 1 it created is still active.\<close>

theorem cleanup_counterexample:
  "map h_oid (created_by_call leaky_oracle [''orders''] [''o_custkey''] demo_runner) = [1]
   \<and> fst (get_optimized_cost leaky_oracle ''SELECT 1'' [''orders''] [''o_custkey''] demo_runner)
       = Some 400
   \<and> rn_active (snd (get_optimized_cost leaky_oracle ''SELECT 1'' [''orders''] [''o_custkey'']
                       demo_runner)) = [1]"
  by (simp add: leaky_oracle_def get_optimized_cost_def demo_oracle_def demo_runner_def
        init_runner_def created_by_call_def new_columns_of_def all_combinations_def
        max_indexes_def explain_with_hypotheticals_def drop_all_def Let_def)

theorem cleanup_witness:
  "list_all (\<lambda>h. drop_resp demo_oracle (h_oid h))
     (created_by_call demo_oracle [''orders''] [''o_custkey''] demo_runner)
   \<and> map h_oid (created_by_call demo_oracle [''orders''] [''o_custkey''] demo_runner) = [1]
   \<and> 1 \<notin> set (rn_active (snd (get_optimized_cost demo_oracle ''SELECT 1'' [''orders'']
                                 [''o_custkey''] demo_runner)))"
proof -
  have c: "created_by_call demo_oracle [''orders''] [''o_custkey''] demo_runner
             = [\<lparr>h_oid = 1, h_index_name = ''btree_orders_o_custkey'', h_index_size = 8192,
                 h_combo = [''o_custkey''], h_table = ''orders''\<rparr>]"
    by (simp add: created_by_call_def demo_oracle_def demo_runner_def init_runner_def
          new_columns_of_def all_combinations_def max_indexes_def)
  have d: "\<forall>h \<in> set (created_by_call demo_oracle [''orders''] [''o_custkey''] demo_runner).
             drop_resp demo_oracle (h_oid h)"
    by (simp add: demo_oracle_def)
  from cleanup_retracts_every_dropped_index
         [of demo_oracle "[''orders'']" "[''o_custkey'']" demo_runner "''SELECT 1''"] d
  show ?thesis by (simp add: c list_all_iff)
qed

text \<open>
  C4, in the form that holds of the code. For \<open>n\<close> columns there are
  \<open>C(n,1) + C(n,2) + C(n,3)\<close> combinations: the singles, then the pairs, then the
  triplets. A call never creates more than 50 hypothetical indexes. The nested loops try
  the pairs of the list that crosses every table with every combination of the new
  columns, table-major and combination-minor, one after the other: a creation that raises
  is skipped and the next pair is tried, until 50 indexes exist. So the created indexes
  are a subsequence of that list; as long as fewer than 50 were created, every pair whose
  creation cannot raise is among them; and when every creation succeeds, they are the
  first 50 pairs, their number being the product of the number of tables and of the
  number of combinations, capped at 50.
\<close>

theorem hypothetical_index_enumeration:
  "length (all_combinations cols) = length cols + (length cols choose 2) + (length cols choose 3)
   \<and> all_combinations cols = combinations cols 1 @ combinations cols 2 @ combinations cols 3
   \<and> length (created_by_call orc tables columns r) \<le> 50
   \<and> (cursor_resp orc \<and> (\<forall>a t c. create_resp orc a t c \<noteq> None) \<longrightarrow>
        map hyp_key (created_by_call orc tables columns r)
          = take 50 (List.product tables (all_combinations (new_columns_of r columns)))
        \<and> length (created_by_call orc tables columns r)
          = min 50 (length tables
                     * (length (new_columns_of r columns)
                        + (length (new_columns_of r columns) choose 2)
                        + (length (new_columns_of r columns) choose 3))))
   \<and> created_by_call orc tables columns r
       = (if cursor_resp orc
          then fst (snd (create_pairs orc
                 (List.product tables (all_combinations (new_columns_of r columns)))
                 (rn_active r, [], 0)))
          else [])
   \<and> subsequence_of (map hyp_key (created_by_call orc tables columns r))
         (List.product tables (all_combinations (new_columns_of r columns)))
   \<and> (cursor_resp orc \<and> length (created_by_call orc tables columns r) < 50 \<longrightarrow>
        (\<forall>p \<in> set (List.product tables (all_combinations (new_columns_of r columns))).
           (\<forall>a. create_resp orc a (fst p) (snd p) \<noteq> None) \<longrightarrow>
             p \<in> set (map hyp_key (created_by_call orc tables columns r))))"
proof -
  let ?n = "new_columns_of r columns"
  have bound: "length (created_by_call orc tables columns r) \<le> 50"
    using created_by_call_shape [of orc tables "all_combinations ?n" "rn_active r"]
    by (simp add: created_by_call_def max_indexes_def)
  have keys: "map hyp_key (created_by_call orc tables columns r)
                = take 50 (List.product tables (all_combinations ?n))"
    if ok: "cursor_resp orc" "\<forall>a t c. create_resp orc a t c \<noteq> None"
  proof (cases "tables = [] \<or> columns = [] \<or> ?n = []")
    case True
    then show ?thesis
      by (auto simp: created_by_call_def new_columns_of_def all_combinations_def
            product_Nil_right)
  next
    case False
    have "map hyp_key (fst (snd (create_tables orc tables (all_combinations ?n)
                                   (rn_active r, [], 0))))
            = take max_indexes (map hyp_key [] @ List.product tables (all_combinations ?n))"
      by (rule create_tables_all) (use ok in \<open>simp_all add: max_indexes_def\<close>)
    with False ok(1) show ?thesis
      by (simp add: created_by_call_def max_indexes_def)
  qed
  have len: "length (created_by_call orc tables columns r)
               = min 50 (length tables
                     * (length ?n + (length ?n choose 2) + (length ?n choose 3)))"
    if ok: "cursor_resp orc" "\<forall>a t c. create_resp orc a t c \<noteq> None"
  proof -
    have "length (map hyp_key (created_by_call orc tables columns r))
            = length (take 50 (List.product tables (all_combinations ?n)))"
      using keys [OF ok] by simp
    then show ?thesis
      by (simp add: length_all_combinations min.commute)
  qed
  have reliable: "p \<in> set (map hyp_key (created_by_call orc tables columns r))"
    if "cursor_resp orc" "length (created_by_call orc tables columns r) < 50"
      "p \<in> set (List.product tables (all_combinations ?n))"
      "\<forall>a. create_resp orc a (fst p) (snd p) \<noteq> None" for p
    using created_by_call_reliable [of orc tables columns r "fst p" "snd p"] that by simp
  show ?thesis
    using length_all_combinations [of cols] all_combinations_eq [of cols] bound keys len
      created_by_call_flat [of orc tables columns r]
      created_by_call_subsequence [of orc tables columns r] reliable
    by blast
qed

text \<open>The claim as stated leaves out the tables: with one new column and two tables,
  two hypothetical indexes are created.\<close>

theorem enumeration_counterexample:
  "length (new_columns_of demo_runner [''o_custkey'']) = 1
   \<and> length (created_by_call demo_oracle [''orders'', ''lineitem''] [''o_custkey''] demo_runner)
       = 2"
  by (simp add: created_by_call_def demo_oracle_def demo_runner_def init_runner_def
        new_columns_of_def all_combinations_def max_indexes_def)

theorem enumeration_witness:
  "cursor_resp demo_oracle \<and> (\<forall>a t c. create_resp demo_oracle a t c \<noteq> None)
   \<and> map hyp_key (created_by_call demo_oracle [''orders'']
                    [''o_custkey'', ''o_totalprice'', ''o_shipmode''] demo_runner)
       = [(''orders'', [''o_custkey'']), (''orders'', [''o_totalprice'']),
          (''orders'', [''o_shipmode'']),
          (''orders'', [''o_custkey'', ''o_totalprice'']),
          (''orders'', [''o_custkey'', ''o_shipmode'']),
          (''orders'', [''o_totalprice'', ''o_shipmode'']),
          (''orders'', [''o_custkey'', ''o_totalprice'', ''o_shipmode''])]
   \<and> length (created_by_call demo_oracle [''orders''] seven_columns demo_runner) = 50
   \<and> cursor_resp picky_oracle
   \<and> (\<forall>a. create_resp picky_oracle a ''orders'' [''o_shipmode''] \<noteq> None)
   \<and> create_resp picky_oracle [] ''orders'' [''o_totalprice''] = None
   \<and> map hyp_key (created_by_call picky_oracle [''orders'']
                    [''o_custkey'', ''o_totalprice'', ''o_shipmode''] demo_runner)
       = [(''orders'', [''o_custkey'']), (''orders'', [''o_shipmode'']),
          (''orders'', [''o_custkey'', ''o_totalprice'']),
          (''orders'', [''o_custkey'', ''o_shipmode'']),
          (''orders'', [''o_totalprice'', ''o_shipmode'']),
          (''orders'', [''o_custkey'', ''o_totalprice'', ''o_shipmode''])]
   \<and> (''orders'', [''o_shipmode''])
       \<in> set (map hyp_key (created_by_call picky_oracle [''orders'']
                    [''o_custkey'', ''o_totalprice'', ''o_shipmode''] demo_runner))"
proof -
  have pk: "cursor_resp picky_oracle"
    "\<forall>a. create_resp picky_oracle a ''orders'' [''o_shipmode''] \<noteq> None"
    "create_resp picky_oracle [] ''orders'' [''o_totalprice''] = None"
    by (simp_all add: picky_oracle_def demo_oracle_def)
  have pc: "map hyp_key (created_by_call picky_oracle [''orders'']
                    [''o_custkey'', ''o_totalprice'', ''o_shipmode''] demo_runner)
       = [(''orders'', [''o_custkey'']), (''orders'', [''o_shipmode'']),
          (''orders'', [''o_custkey'', ''o_totalprice'']),
          (''orders'', [''o_custkey'', ''o_shipmode'']),
          (''orders'', [''o_totalprice'', ''o_shipmode'']),
          (''orders'', [''o_custkey'', ''o_totalprice'', ''o_shipmode''])]"
    by (simp add: created_by_call_def picky_oracle_def demo_oracle_def demo_runner_def
          init_runner_def new_columns_of_def all_combinations_def max_indexes_def
          hyp_key_def numeral_2_eq_2 numeral_3_eq_3)
  have pl: "length (created_by_call picky_oracle [''orders'']
                    [''o_custkey'', ''o_totalprice'', ''o_shipmode''] demo_runner) < 50"
    using arg_cong [OF pc, of length] by simp
  have ok: "cursor_resp demo_oracle \<and> (\<forall>a t c. create_resp demo_oracle a t c \<noteq> None)"
    by (simp add: demo_oracle_def)
  have n3: "new_columns_of demo_runner [''o_custkey'', ''o_totalprice'', ''o_shipmode'']
              = [''o_custkey'', ''o_totalprice'', ''o_shipmode'']"
    by (simp add: new_columns_of_def demo_runner_def init_runner_def)
  have n7: "length (new_columns_of demo_runner seven_columns) = 7"
    by (simp add: new_columns_of_def demo_runner_def init_runner_def seven_columns_def)
  have c3: "all_combinations [''o_custkey'', ''o_totalprice'', ''o_shipmode'']
              = [[''o_custkey''], [''o_totalprice''], [''o_shipmode''],
                 [''o_custkey'', ''o_totalprice''], [''o_custkey'', ''o_shipmode''],
                 [''o_totalprice'', ''o_shipmode''],
                 [''o_custkey'', ''o_totalprice'', ''o_shipmode'']]"
    by (simp add: all_combinations_def numeral_2_eq_2 numeral_3_eq_3)
  have pin: "(''orders'', [''o_shipmode''])
       \<in> set (List.product [''orders'']
                (all_combinations
                   (new_columns_of demo_runner [''o_custkey'', ''o_totalprice'', ''o_shipmode''])))"
    by (simp add: n3 c3)
  have pm: "(''orders'', [''o_shipmode''])
       \<in> set (map hyp_key (created_by_call picky_oracle [''orders'']
                    [''o_custkey'', ''o_totalprice'', ''o_shipmode''] demo_runner))"
    using hypothetical_index_enumeration
            [of "[]" picky_oracle "[''orders'']" "[''o_custkey'', ''o_totalprice'', ''o_shipmode'']"
               demo_runner] pk(1,2) pl pin
    by (metis fst_conv snd_conv)
  have b: "(7::nat) choose 2 = 21" "(7::nat) choose 3 = 35"
    by (simp_all add: binomial_fact_lemma choose_two numeral_3_eq_3 binomial_Suc_Suc eval_nat_numeral)
  have k3: "map hyp_key (created_by_call demo_oracle [''orders'']
                    [''o_custkey'', ''o_totalprice'', ''o_shipmode''] demo_runner)
              = take 50 (List.product [''orders'']
                  (all_combinations (new_columns_of demo_runner
                     [''o_custkey'', ''o_totalprice'', ''o_shipmode''])))"
    using hypothetical_index_enumeration
            [of "[]" demo_oracle "[''orders'']" "[''o_custkey'', ''o_totalprice'', ''o_shipmode'']"
               demo_runner] ok
    by blast
  have l7: "length (created_by_call demo_oracle [''orders''] seven_columns demo_runner)
              = min 50 (length [''orders'']
                     * (length (new_columns_of demo_runner seven_columns)
                        + (length (new_columns_of demo_runner seven_columns) choose 2)
                        + (length (new_columns_of demo_runner seven_columns) choose 3)))"
    using hypothetical_index_enumeration
            [of "[]" demo_oracle "[''orders'']" seven_columns demo_runner] ok
    by blast
  have old: "map hyp_key (created_by_call demo_oracle [''orders'']
                    [''o_custkey'', ''o_totalprice'', ''o_shipmode''] demo_runner)
       = [(''orders'', [''o_custkey'']), (''orders'', [''o_totalprice'']),
          (''orders'', [''o_shipmode'']),
          (''orders'', [''o_custkey'', ''o_totalprice'']),
          (''orders'', [''o_custkey'', ''o_shipmode'']),
          (''orders'', [''o_totalprice'', ''o_shipmode'']),
          (''orders'', [''o_custkey'', ''o_totalprice'', ''o_shipmode''])]
   \<and> length (created_by_call demo_oracle [''orders''] seven_columns demo_runner) = 50"
    unfolding k3 l7 by (simp add: n3 n7 c3 b)
  with ok pk pc pm show ?thesis by blast
qed

text \<open>
  C5, in the form that holds of the code. For non-empty tables and columns, when the cursor
  opens and the closing commit (reached only when there is a new column) does not raise,
  \<^verbatim>\<open>get_optimized_cost\<close> returns the with-hypotheticals estimate when one was obtained, and otherwise what
  \<^verbatim>\<open>get_baseline_cost\<close> returns; when the cursor or that commit raises, it returns
  \<^verbatim>\<open>None\<close>. The result is always a value: no exception leaves the function.
\<close>

theorem optimized_cost_or_baseline:
  assumes "tables \<noteq> []" and "columns \<noteq> []"
  shows "fst (get_optimized_cost orc query tables columns r) =
           (if cursor_resp orc \<and> (new_columns_of r columns = [] \<or> commit_resp orc)
            then (case hypothetical_estimate orc query tables columns r of
                    Some cost \<Rightarrow> Some cost
                  | None \<Rightarrow> get_baseline_cost orc (rn_active r) query)
            else None)"
  using assms
  by (simp add: get_optimized_cost_def hypothetical_estimate_def Let_def split: option.splits)

text \<open>The claim as stated fails when the closing commit raises: the estimate 400 was
  obtained, the baseline is 1000, and \<^verbatim>\<open>None\<close> is returned.\<close>

theorem optimized_cost_counterexample:
  "hypothetical_estimate broken_commit_oracle ''SELECT 1'' [''orders''] [''o_custkey'']
     demo_runner = Some 400
   \<and> get_baseline_cost broken_commit_oracle (rn_active demo_runner) ''SELECT 1'' = Some 1000
   \<and> fst (get_optimized_cost broken_commit_oracle ''SELECT 1'' [''orders''] [''o_custkey'']
            demo_runner) = None"
  by (simp add: broken_commit_oracle_def get_optimized_cost_def hypothetical_estimate_def
        get_baseline_cost_def demo_oracle_def demo_runner_def init_runner_def
        new_columns_of_def all_combinations_def max_indexes_def
        explain_with_hypotheticals_def Let_def)

theorem optimized_cost_witness:
  "[''orders''] \<noteq> [] \<and> [''o_custkey''] \<noteq> []
   \<and> fst (get_optimized_cost demo_oracle ''SELECT 1'' [''orders''] [''o_custkey''] demo_runner)
       = Some 400
   \<and> fst (get_optimized_cost failing_explain_oracle ''SELECT 1'' [''orders''] [''o_custkey'']
            demo_runner) = Some 1000"
proof -
  have e1: "hypothetical_estimate demo_oracle ''SELECT 1'' [''orders''] [''o_custkey'']
              demo_runner = Some 400"
    by (simp add: hypothetical_estimate_def demo_oracle_def demo_runner_def init_runner_def
          new_columns_of_def all_combinations_def max_indexes_def
          explain_with_hypotheticals_def Let_def)
  have e2: "hypothetical_estimate failing_explain_oracle ''SELECT 1'' [''orders'']
              [''o_custkey''] demo_runner = None"
    by (simp add: hypothetical_estimate_def failing_explain_oracle_def demo_oracle_def
          demo_runner_def init_runner_def new_columns_of_def all_combinations_def
          max_indexes_def explain_with_hypotheticals_def Let_def)
  have o1: "cursor_resp demo_oracle" "commit_resp demo_oracle"
    "cursor_resp failing_explain_oracle" "commit_resp failing_explain_oracle"
    "get_baseline_cost failing_explain_oracle (rn_active demo_runner) ''SELECT 1'' = Some 1000"
    by (simp_all add: failing_explain_oracle_def demo_oracle_def get_baseline_cost_def)
  have t: "[''orders''] \<noteq> []" "[''o_custkey''] \<noteq> []" by simp_all
  from optimized_cost_or_baseline [OF t, of demo_oracle "''SELECT 1''" demo_runner]
       optimized_cost_or_baseline [OF t, of failing_explain_oracle "''SELECT 1''" demo_runner]
  show ?thesis
    by (simp add: e1 e2 o1)
qed

section \<open>Lemmas on the decision engine\<close>

lemma tally_queries:
  "all_improvement_pcts (fold (\<lambda>item. tally_query (snd item)) qs t)
     = all_improvement_pcts t @ map (\<lambda>item. q_avg_improvement_pct (snd item)) qs"
  "total_improvement_cost (fold (\<lambda>item. tally_query (snd item)) qs t)
     = total_improvement_cost t
         + sum_list (map (\<lambda>item. q_total_baseline_cost (snd item)
                                  - q_total_optimized_cost (snd item)) qs)"
  "hot_columns_all_dict (fold (\<lambda>item. tally_query (snd item)) qs t)
     = fold count_column (concat (map (\<lambda>item. q_hot_columns (snd item)) qs))
         (hot_columns_all_dict t)"
  by (induction qs arbitrary: t) (simp_all add: tally_query_def)

lemma tally_measurements:
  "all_improvement_pcts (fold tally_measurement ms t)
     = all_improvement_pcts t @ map m_improvement_pct ms"
  "hot_columns_all_dict (fold tally_measurement ms t) = hot_columns_all_dict t"
  by (induction ms arbitrary: t) (simp_all add: tally_measurement_def)

lemma avg_of_queries:
  "ws_queries stats \<noteq> [] \<Longrightarrow>
     avg_improvement_pct stats
       = sum_list (map (\<lambda>item. q_avg_improvement_pct (snd item)) (ws_queries stats))
           / real (length (ws_queries stats))"
  by (simp add: avg_improvement_pct_def tally_stats_def tally_queries tally0_def mean_pct_def)

lemma analyze_improvement_pct:
  "analyze_workload self db (Some stats) now wid = Inr (Some r) \<Longrightarrow>
     rec_improvement_pct r = round2 (avg_improvement_pct stats)"
  by (auto simp: analyze_workload_def Let_def split: if_splits option.splits)

lemma no_data_no_candidates:
  "ws_queries stats = [] \<Longrightarrow> sn_measurements stats = [] \<Longrightarrow> candidates_of existing stats = []"
  by (simp add: candidates_of_def hot_columns_all_def tally_stats_def tally0_def
        extract_hot_columns_from_measurements_def sort_by_frequency_def)

lemma demo_existing:
  "get_existing_indexes [''orders_pkey'', ''idx_o_orderdate''] = {''o_orderdate''}"
  by (simp add: get_existing_indexes_def str_replace.simps)

lemma below_threshold_candidates:
  "candidates_of {''o_orderdate''} below_threshold_snapshot = [''o_custkey'']"
  by (simp add: candidates_of_def hot_columns_all_def tally_stats_def tally0_def
        tally_query_def count_column_def sort_by_frequency_def
        below_threshold_snapshot_def demo_snapshot_def demo_query_stats_def)

lemma keys_count_column:
  "map fst (count_column col d)
     = (if col \<in> set (map fst d) then map fst d else map fst d @ [col])"
  by (simp add: count_column_def update_keys)

lemma keys_fold_count:
  "map fst (fold count_column cols d)
     = fold (\<lambda>x acc. if x \<in> set acc then acc else acc @ [x]) cols (map fst d)"
proof (induction cols arbitrary: d)
  case Nil
  show ?case by simp
next
  case (Cons col cols)
  show ?case
    using Cons.IH [of "count_column col d"]
    by (simp add: keys_count_column)
qed

lemma distinct_fold_count:
  "distinct (map fst d) \<Longrightarrow> distinct (map fst (fold count_column cols d))"
proof (induction cols arbitrary: d)
  case Nil
  then show ?case by simp
next
  case (Cons col cols)
  have "distinct (map fst (count_column col d))"
    using Cons.prems by (simp add: keys_count_column)
  from Cons.IH [OF this] show ?case by simp
qed

lemma lookup_count_column:
  "map_of (count_column col d) c
     = (if c = col then Some ((case map_of d col of None \<Rightarrow> 0 | Some n \<Rightarrow> n) + 1)
        else map_of d c)"
  by (simp add: count_column_def update_conv')

lemma lookup_fold_count:
  "map_of (fold count_column cols []) c
     = (if c \<in> set cols then Some (count_list cols c) else None)"
proof -
  have gen: "map_of (fold count_column cols d) c
        = (if c \<in> set cols
           then Some ((case map_of d c of None \<Rightarrow> 0 | Some n \<Rightarrow> n) + count_list cols c)
           else map_of d c)" for d
  proof (induction cols arbitrary: d)
    case Nil
    show ?case by simp
  next
    case (Cons col cols)
    show ?case
      using Cons.IH [of "count_column col d"]
      by (auto simp: lookup_count_column split: option.splits)
  qed
  show ?thesis using gen [of "[]"] by simp
qed

lemma counts_in_first_seen_order:
  "fold count_column cols [] = map (\<lambda>c. (c, count_list cols c)) (first_seen cols)"
proof -
  let ?d = "fold count_column cols []"
  have keys: "map fst ?d = first_seen cols"
    using keys_fold_count [of cols "[]"] by (simp add: first_seen_def)
  have dist: "distinct (map fst ?d)"
    by (rule distinct_fold_count) simp
  have "snd p = count_list cols (fst p)" if "p \<in> set ?d" for p
  proof -
    have "(fst p, snd p) \<in> set ?d" using that by simp
    then have "map_of ?d (fst p) = Some (snd p)"
      using dist by (rule map_of_is_SomeI [rotated])
    then show ?thesis
      by (simp add: lookup_fold_count split: if_splits)
  qed
  then have "map (\<lambda>p. (fst p, count_list cols (fst p))) ?d = ?d"
    by (intro map_idI) (simp add: prod_eq_iff)
  then have "?d = map (\<lambda>c. (c, count_list cols c)) (map fst ?d)"
    by (simp add: comp_def)
  then show ?thesis by (simp only: keys)
qed

lemma fold_fold_concat:
  "fold (\<lambda>m counts. fold count_column (f m) counts) ms d
     = fold count_column (concat (map f ms)) d"
  by (induction ms arbitrary: d) simp_all

lemma hot_columns_all_eq:
  "hot_columns_all stats = sort_by_frequency (fold count_column (observed_columns stats) [])"
proof (cases "ws_queries stats = []")
  case True
  then show ?thesis
    by (simp add: hot_columns_all_def tally_stats_def tally_measurements tally0_def
          observed_columns_def extract_hot_columns_from_measurements_def fold_fold_concat)
next
  case False
  let ?cols = "concat (map (\<lambda>item. q_hot_columns (snd item)) (ws_queries stats))"
  have d: "hot_columns_all_dict (tally_stats stats) = fold count_column ?cols []"
    using False by (simp add: tally_stats_def tally_queries tally0_def)
  have e: "fold count_column ?cols [] \<noteq> []" if "?cols \<noteq> []"
  proof -
    from that obtain a where "a \<in> set ?cols" by (cases ?cols) auto
    then have "map_of (fold count_column ?cols []) a = Some (count_list ?cols a)"
      by (simp add: lookup_fold_count)
    then show ?thesis by auto
  qed
  show ?thesis
  proof (cases "?cols = []")
    case True
    with d show ?thesis
      by (simp add: hot_columns_all_def observed_columns_def
            extract_hot_columns_from_measurements_def fold_fold_concat)
  next
    case False
    with d e show ?thesis
      by (simp add: hot_columns_all_def observed_columns_def)
  qed
qed

lemma without_timestamp_analyze:
  "without_timestamp (analyze_workload self db loaded now1 wid)
     = without_timestamp (analyze_workload self db loaded now2 wid)"
  by (simp add: analyze_workload_def without_timestamp_def Let_def split: option.splits)

lemma filter_count_pairs:
  "filter (\<lambda>item. snd item = n) (map (\<lambda>c. (c, f c)) ks)
     = map (\<lambda>c. (c, n)) (filter (\<lambda>c. f c = n) ks)"
  by (induction ks) simp_all

section \<open>Claims on the decision engine\<close>

text \<open>
  C2. When the catalog answers and the candidate list is not empty, \<^verbatim>\<open>analyze_workload\<close>
  returns a recommendation decided by the guards in their order: a mean improvement below
  the threshold gives \<open>NO_ACTION\<close> with the threshold as the reason, whatever the net
  benefit and the sizes are; otherwise a net benefit that is not positive gives
  \<open>NO_ACTION\<close> for that reason; otherwise sizes beyond the budget give \<open>NO_ACTION\<close> for
  that reason; and the decision is \<open>CREATE_INDEXES\<close> exactly when all three guards pass,
  with one recommended index per candidate.
\<close>

theorem guards_apply_in_order:
  assumes "index_names_resp db = Some names"
    and "candidates_of (get_existing_indexes names) stats = candidates"
    and "candidates \<noteq> []"
  shows "\<exists>r. analyze_workload self db (Some stats) now wid = Inr (Some r)
     \<and> (avg_improvement_pct stats < improvement_threshold self \<longrightarrow>
          rec_decision r = NO_ACTION
          \<and> rec_reason r = BelowThreshold (avg_improvement_pct stats) (improvement_threshold self))
     \<and> (\<not> avg_improvement_pct stats < improvement_threshold self
          \<and> net_benefit_of db stats candidates \<le> 0 \<longrightarrow>
          rec_decision r = NO_ACTION
          \<and> rec_reason r = NetBenefitNotPositive (net_benefit_of db stats candidates))
     \<and> (\<not> avg_improvement_pct stats < improvement_threshold self
          \<and> \<not> net_benefit_of db stats candidates \<le> 0
          \<and> total_new_space_of db candidates > max_space_budget self \<longrightarrow>
          rec_decision r = NO_ACTION
          \<and> rec_reason r = ExceedsBudget (total_new_space_of db candidates)
                              (max_space_budget self))
     \<and> (rec_decision r = CREATE_INDEXES \<longleftrightarrow>
          \<not> avg_improvement_pct stats < improvement_threshold self
          \<and> \<not> net_benefit_of db stats candidates \<le> 0
          \<and> \<not> total_new_space_of db candidates > max_space_budget self)
     \<and> (rec_decision r = CREATE_INDEXES \<longrightarrow>
          map ri_column (rec_recommended_indexes r) = candidates)
     \<and> (rec_decision r = NO_ACTION \<longrightarrow> rec_recommended_indexes r = [])"
proof -
  have data: "\<not> (ws_queries stats = [] \<and> sn_measurements stats = [])"
    using assms(2,3) no_data_no_candidates by blast
  show ?thesis
    using assms data
    by (simp add: analyze_workload_def Let_def decide_def recommended_indexes_of_def comp_def)
qed

theorem guards_witness:
  "index_names_resp demo_db = Some [''orders_pkey'', ''idx_o_orderdate'']
   \<and> candidates_of (get_existing_indexes [''orders_pkey'', ''idx_o_orderdate''])
        below_threshold_snapshot = [''o_custkey'']
   \<and> avg_improvement_pct below_threshold_snapshot = 10
   \<and> net_benefit_of demo_db below_threshold_snapshot [''o_custkey''] = 8800
   \<and> total_new_space_of demo_db [''o_custkey''] = 4000000
   \<and> max_space_budget (alerter_init 20 500) = 500000000
   \<and> (\<exists>r. analyze_workload (alerter_init 20 500) demo_db (Some below_threshold_snapshot)
             ''2024-01-01T00:03:00'' 1 = Inr (Some r)
          \<and> rec_decision r = NO_ACTION \<and> rec_reason r = BelowThreshold 10 20)"
proof -
  have a: "index_names_resp demo_db = Some [''orders_pkey'', ''idx_o_orderdate'']"
    by (simp add: demo_db_def)
  have b: "candidates_of (get_existing_indexes [''orders_pkey'', ''idx_o_orderdate''])
             below_threshold_snapshot = [''o_custkey'']"
    by (simp add: demo_existing below_threshold_candidates)
  have c: "[''o_custkey''] \<noteq> []" by simp
  have avg: "avg_improvement_pct below_threshold_snapshot = 10"
    by (simp add: avg_improvement_pct_def tally_stats_def tally0_def tally_query_def
          mean_pct_def below_threshold_snapshot_def demo_snapshot_def demo_query_stats_def)
  have net: "net_benefit_of demo_db below_threshold_snapshot [''o_custkey''] = 8800"
    by (simp add: net_benefit_of_def total_retuning_cost_of_def tally_stats_def tally0_def
          tally_query_def estimate_create_index_cost_def estimate_drop_index_cost_def
          below_threshold_snapshot_def demo_snapshot_def demo_query_stats_def demo_db_def)
  have space: "total_new_space_of demo_db [''o_custkey''] = 4000000"
    by (simp add: total_new_space_of_def index_sizes_of_def get_real_index_size_def demo_db_def)
  have cfg: "improvement_threshold (alerter_init 20 500) = 20"
    "max_space_budget (alerter_init 20 500) = 500000000"
    by (simp_all add: alerter_init_def)
  from guards_apply_in_order [OF a b c, of "alerter_init 20 500" "''2024-01-01T00:03:00''" 1]
  obtain r where r:
    "analyze_workload (alerter_init 20 500) demo_db (Some below_threshold_snapshot)
       ''2024-01-01T00:03:00'' 1 = Inr (Some r)"
    "avg_improvement_pct below_threshold_snapshot < improvement_threshold (alerter_init 20 500)
       \<longrightarrow> rec_decision r = NO_ACTION
         \<and> rec_reason r = BelowThreshold (avg_improvement_pct below_threshold_snapshot)
                            (improvement_threshold (alerter_init 20 500))"
    by blast
  from r(2) have "rec_decision r = NO_ACTION \<and> rec_reason r = BelowThreshold 10 20"
    by (simp add: avg cfg)
  with r(1) a b avg net space cfg show ?thesis by blast
qed

text \<open>
  C6. For a snapshot with at least one query shape, the \<open>avg_improvement_pct\<close> of the
  decision engine is the sum of the stored \<open>avg_improvement_pct\<close> of the shapes divided by
  the number of shapes. It does not change when the execution counts of the shapes are
  replaced by any others, and it is the value, rounded, that the recommendation reports.
\<close>

theorem decision_avg_is_plain_mean_of_shapes:
  assumes "ws_queries stats \<noteq> []"
  shows "avg_improvement_pct stats
           = sum_list (map (\<lambda>item. q_avg_improvement_pct (snd item)) (ws_queries stats))
               / real (length (ws_queries stats))
       \<and> avg_improvement_pct
           (stats\<lparr>ws_queries :=
                    map (\<lambda>item. (fst item, (snd item)\<lparr>q_executions := g item\<rparr>))
                        (ws_queries stats)\<rparr>)
           = avg_improvement_pct stats
       \<and> (\<forall>self db now wid r.
            analyze_workload self db (Some stats) now wid = Inr (Some r) \<longrightarrow>
              rec_improvement_pct r = round2 (avg_improvement_pct stats))"
proof -
  let ?stats' = "stats\<lparr>ws_queries :=
                    map (\<lambda>item. (fst item, (snd item)\<lparr>q_executions := g item\<rparr>))
                        (ws_queries stats)\<rparr>"
  have ne: "ws_queries ?stats' \<noteq> []" using assms by simp
  have "avg_improvement_pct ?stats' = avg_improvement_pct stats"
    unfolding avg_of_queries [OF ne] avg_of_queries [OF assms]
    by (simp add: comp_def)
  then show ?thesis
    using avg_of_queries [OF assms] analyze_improvement_pct by blast
qed

theorem decision_avg_witness:
  "ws_queries scenario_a \<noteq> [] \<and> avg_improvement_pct scenario_a = 31"
proof -
  have ne: "ws_queries scenario_a \<noteq> []"
    by (simp add: scenario_a_def demo_snapshot_def)
  from decision_avg_is_plain_mean_of_shapes [OF ne] ne show ?thesis
    by (simp add: scenario_a_def demo_snapshot_def demo_query_stats_def)
qed

text \<open>
  C9. Two invocations on the same configuration, database responses and snapshot return
  the same value apart from the timestamp, whatever the clock reads. The ranking of the hot
  columns is in descending order of their counts, and the columns of equal count stand in
  it in the order in which they are first seen in the snapshot.
\<close>

theorem decision_deterministic_ranking_stable:
  "without_timestamp (analyze_workload self db loaded now1 wid)
     = without_timestamp (analyze_workload self db loaded now2 wid)
   \<and> sorted_wrt (\<lambda>a b. snd a \<ge> snd b) (hot_columns_all stats)
   \<and> (\<forall>n. filter (\<lambda>item. snd item = n) (hot_columns_all stats)
            = map (\<lambda>c. (c, n))
                (filter (\<lambda>c. count_list (observed_columns stats) c = n)
                        (first_seen (observed_columns stats))))"
proof -
  let ?d = "fold count_column (observed_columns stats) []"
  let ?f = "\<lambda>item::string \<times> nat. - int (snd item)"
  have "sorted (map ?f (sort_key ?f ?d))" by (rule sorted_sort_key)
  then have desc: "sorted_wrt (\<lambda>a b. snd a \<ge> snd b) (hot_columns_all stats)"
    by (simp add: hot_columns_all_eq sort_by_frequency_def sorted_wrt_map)
  have stable: "filter (\<lambda>item. snd item = n) (hot_columns_all stats)
            = map (\<lambda>c. (c, n))
                (filter (\<lambda>c. count_list (observed_columns stats) c = n)
                        (first_seen (observed_columns stats)))" for n
  proof -
    have "filter (\<lambda>item. snd item = n) (sort_key ?f ?d)
            = filter (\<lambda>item. ?f item = - int n) (sort_key ?f ?d)"
      by simp
    also have "\<dots> = filter (\<lambda>item. ?f item = - int n) ?d"
      by (rule sort_key_stable)
    also have "\<dots> = filter (\<lambda>item. snd item = n) ?d"
      by simp
    finally show ?thesis
      by (simp add: hot_columns_all_eq sort_by_frequency_def counts_in_first_seen_order
            filter_count_pairs)
  qed
  show ?thesis using without_timestamp_analyze desc stable by blast
qed

theorem ranking_witness:
  "filter (\<lambda>item. snd item = 2) (hot_columns_all tie_snapshot)
     = [(''o_shipmode'', 2), (''o_custkey'', 2), (''o_totalprice'', 2)]
   \<and> filter (\<lambda>item. snd item = 1) (hot_columns_all tie_snapshot) = [(''o_clerk'', 1)]
   \<and> hot_columns_all tie_snapshot
       = [(''o_shipmode'', 2), (''o_custkey'', 2), (''o_totalprice'', 2), (''o_clerk'', 1)]
   \<and> candidates_of {} tie_snapshot = [''o_shipmode'', ''o_custkey'', ''o_totalprice'']"
proof -
  have obs: "observed_columns tie_snapshot
               = [''o_shipmode'', ''o_custkey'', ''o_totalprice'', ''o_custkey'', ''o_shipmode'',
                  ''o_totalprice'', ''o_clerk'']"
    by (simp add: observed_columns_def tie_snapshot_def demo_snapshot_def demo_query_stats_def)
  have fs: "first_seen (observed_columns tie_snapshot)
              = [''o_shipmode'', ''o_custkey'', ''o_totalprice'', ''o_clerk'']"
    unfolding obs by (simp add: first_seen_def)
  have all: "hot_columns_all tie_snapshot
       = [(''o_shipmode'', 2), (''o_custkey'', 2), (''o_totalprice'', 2), (''o_clerk'', 1)]"
    unfolding hot_columns_all_eq counts_in_first_seen_order fs
    by (simp add: obs sort_by_frequency_def)
  have cands: "candidates_of {} tie_snapshot = [''o_shipmode'', ''o_custkey'', ''o_totalprice'']"
    by (simp add: candidates_of_def all)
  from decision_deterministic_ranking_stable [of _ _ _ _ _ _ tie_snapshot]
  have "\<forall>n. filter (\<lambda>item. snd item = n) (hot_columns_all tie_snapshot)
            = map (\<lambda>c. (c, n))
                (filter (\<lambda>c. count_list (observed_columns tie_snapshot) c = n)
                        (first_seen (observed_columns tie_snapshot)))"
    by blast
  then have "filter (\<lambda>item. snd item = 2) (hot_columns_all tie_snapshot)
               = [(''o_shipmode'', 2), (''o_custkey'', 2), (''o_totalprice'', 2)]"
    "filter (\<lambda>item. snd item = 1) (hot_columns_all tie_snapshot) = [(''o_clerk'', 1)]"
    unfolding fs by (simp_all add: obs)
  with all cands show ?thesis by blast
qed

end
